theory Spec2Isabelle
  imports Main "HOL-Library.Word" "HOL-Library.Char_ord" "HOL-Library.List_Lexorder"
begin

section \<open>Process identifiers (third\_party/libprocess/pid.hpp)\<close>

text \<open>
  \<^verbatim>\<open>struct UPID { std::string id; uint32_t ip; uint16_t port; }\<close>.
  The field \<^verbatim>\<open>id\<close> is called \<open>u_id\<close> here, since \<open>id\<close> is the identity function of HOL.
  \<^verbatim>\<open>std::string\<close> is a byte string; its \<^verbatim>\<open>operator<\<close> is the lexicographic order on
  unsigned bytes, which is the order of \<open>char list\<close> from the library.
\<close>

record UPID =
  u_id :: string
  ip :: "32 word"
  port :: "16 word"

text \<open>
  The comparison operators start with the pointer test \<^verbatim>\<open>this != &that\<close>, so they are
  functions of two objects, not only of two values. Objects live in a store: an address
  is a natural number, and the store gives every address the value of the object there.
\<close>

type_synonym addr = nat
type_synonym upid_store = "addr \<Rightarrow> UPID"

definition upid_less :: "upid_store \<Rightarrow> addr \<Rightarrow> addr \<Rightarrow> bool" where
  "upid_less h this that =
     (if this \<noteq> that then
        (if ip (h this) = ip (h that) \<and> port (h this) = port (h that)
           then u_id (h this) < u_id (h that)
         else if ip (h this) = ip (h that) \<and> port (h this) \<noteq> port (h that)
           then port (h this) < port (h that)
         else ip (h this) < ip (h that))
      else False)"

definition upid_eq :: "upid_store \<Rightarrow> addr \<Rightarrow> addr \<Rightarrow> bool" where
  "upid_eq h this that =
     (if this \<noteq> that then
        (u_id (h this) = u_id (h that) \<and>
         ip (h this) = ip (h that) \<and>
         port (h this) = port (h that))
      else True)"

definition upid_neq :: "upid_store \<Rightarrow> addr \<Rightarrow> addr \<Rightarrow> bool" where
  "upid_neq h this that = (\<not> upid_eq h this that)"

text \<open>\<^verbatim>\<open>operator !\<close>: the default-constructed identifier.\<close>

definition upid_not :: "UPID \<Rightarrow> bool" where
  "upid_not u = (u_id u = [] \<and> ip u = 0 \<and> port u = 0)"

definition UPID_default :: UPID where
  "UPID_default = \<lparr>u_id = [], ip = 0, port = 0\<rparr>"

text \<open>A store with three identifiers, used to exercise the comparisons.\<close>

definition upid_store3 :: upid_store where
  "upid_store3 =
     (\<lambda>_. UPID_default)
       (0 := \<lparr>u_id = ''master'', ip = 0x7F000001, port = 5050\<rparr>,
        1 := \<lparr>u_id = ''slave'', ip = 0x7F000001, port = 5050\<rparr>,
        2 := \<lparr>u_id = ''slave'', ip = 0x7F000001, port = 5051\<rparr>)"

section \<open>Slave-side records (slave.hpp)\<close>

text \<open>
  Modelled from the spec: the identifier types \<^verbatim>\<open>TaskID\<close>, \<^verbatim>\<open>FrameworkID\<close> and
  \<^verbatim>\<open>SlaveID\<close> are declared in a header that is not part of the sources at hand; the
  data model says that identifiers are opaque strings. The code below only compares
  them and prints them.
\<close>

type_synonym TaskID = string
type_synonym FrameworkID = string
type_synonym SlaveID = string

text \<open>
  Modelled from the spec: the enumeration \<^verbatim>\<open>TaskState\<close> is declared outside the
  sources at hand; the data model lists its six values.
\<close>

datatype TaskState =
  TASK_STARTING | TASK_RUNNING | TASK_FINISHED | TASK_FAILED | TASK_KILLED | TASK_LOST

text \<open>
  Modelled from the spec: \<^verbatim>\<open>ExecutorInfo\<close> is declared outside the sources at hand; the
  data model describes it as an opaque blob plus a URI the slave uses to launch the
  executor.
\<close>

record ExecutorInfo =
  uri :: string
  blob :: string

text \<open>
  \<^verbatim>\<open>Params\<close> and \<^verbatim>\<open>Resources\<close> are declared outside the sources at hand as well. Both
  are type parameters here: \<open>'p\<close> for \<^verbatim>\<open>Params\<close>, which the code only stores, and
  \<open>'r\<close> for \<^verbatim>\<open>Resources\<close>, of which the code uses the default constructor (the zero
  vector, written \<open>0\<close>), \<^verbatim>\<open>+=\<close> and \<^verbatim>\<open>-=\<close>.

  Fields called \<^verbatim>\<open>id\<close>, \<^verbatim>\<open>name\<close> or \<^verbatim>\<open>resources\<close> in several structs carry the
  struct's initial here (\<open>t_id\<close>, \<open>fw_id\<close>, ...), so that every field has one name.
\<close>

record 'p TaskDescription =
  td_tid :: TaskID
  td_name :: string
  td_args :: string
  td_params :: 'p

record 'r Task =
  t_id :: TaskID
  t_frameworkId :: FrameworkID
  t_resources :: 'r
  t_state :: TaskState
  t_name :: string
  t_message :: string

text \<open>
  \<^verbatim>\<open>queuedTasks\<close> is a \<^verbatim>\<open>list<TaskDescription *>\<close> and \<^verbatim>\<open>tasks\<close> an
  \<^verbatim>\<open>unordered_map<TaskID, Task *>\<close>; the framework owns the objects they point to
  (its destructor deletes them), so the list and the map hold the values.
\<close>

record ('r, 'p) Framework =
  fw_id :: FrameworkID
  fw_name :: string
  fw_user :: string
  executorInfo :: ExecutorInfo
  queuedTasks :: "'p TaskDescription list"
  tasks :: "TaskID \<rightharpoonup> 'r Task"
  fw_resources :: 'r
  executorStatus :: string

text \<open>The constructor: the members it does not name are default-constructed.\<close>

definition Framework_new ::
  "FrameworkID \<Rightarrow> string \<Rightarrow> string \<Rightarrow> ExecutorInfo \<Rightarrow> ('r::zero, 'p) Framework" where
  "Framework_new fid nm usr einfo =
     \<lparr>fw_id = fid, fw_name = nm, fw_user = usr, executorInfo = einfo,
      queuedTasks = [], tasks = Map.empty, fw_resources = 0, executorStatus = []\<rparr>"

text \<open>\<^verbatim>\<open>lookupTask\<close> returns the pointer stored in the map or \<^verbatim>\<open>NULL\<close>.\<close>

definition lookupTask :: "('r, 'p) Framework \<Rightarrow> TaskID \<Rightarrow> 'r Task option" where
  "lookupTask fw tid = (case tasks fw tid of Some t \<Rightarrow> Some t | None \<Rightarrow> None)"

text \<open>
  \<^verbatim>\<open>LOG(FATAL)\<close> writes the message and aborts the process: nothing of the slave's state
  is left. The result of an operation that can reach it is a sum, with the message on
  the left.
\<close>

datatype fatal = Fatal string

definition addTask ::
  "('r::plus, 'p) Framework \<Rightarrow> TaskID \<Rightarrow> string \<Rightarrow> 'r \<Rightarrow> fatal + ('r Task \<times> ('r, 'p) Framework)" where
  "addTask fw tid nm res =
     (if tasks fw tid \<noteq> None then
        Inl (Fatal (''Task ID '' @ tid @ ''already exists in framework '' @ fw_id fw))
      else
        (let task = \<lparr>t_id = tid, t_frameworkId = fw_id fw, t_resources = res,
                      t_state = TASK_STARTING, t_name = nm, t_message = []\<rparr>
         in Inr (task, fw\<lparr>tasks := (tasks fw)(tid \<mapsto> task),
                           fw_resources := fw_resources fw + res\<rparr>)))"

text \<open>The loop of \<^verbatim>\<open>removeTask\<close>: erase the first queued description of the task, then stop.\<close>

fun erase_queued :: "TaskID \<Rightarrow> 'p TaskDescription list \<Rightarrow> 'p TaskDescription list" where
  "erase_queued tid [] = []"
| "erase_queued tid (d # ds) = (if td_tid d = tid then ds else d # erase_queued tid ds)"

definition removeTask :: "('r::minus, 'p) Framework \<Rightarrow> TaskID \<Rightarrow> ('r, 'p) Framework" where
  "removeTask fw tid =
     (let fw1 = fw\<lparr>queuedTasks := erase_queued tid (queuedTasks fw)\<rparr>
      in case tasks fw1 tid of
           Some t \<Rightarrow> fw1\<lparr>fw_resources := fw_resources fw1 - t_resources t,
                          tasks := (tasks fw1)(tid := None)\<rparr>
         | None \<Rightarrow> fw1)"

text \<open>A run of \<^verbatim>\<open>addTask\<close> and \<^verbatim>\<open>removeTask\<close> calls on one framework; it ends at an abort.\<close>

datatype 'r task_op = AddTask TaskID string 'r | RemoveTask TaskID

fun task_ops ::
  "('r::{plus,minus}, 'p) Framework \<Rightarrow> 'r task_op list \<Rightarrow> fatal + ('r, 'p) Framework" where
  "task_ops fw [] = Inr fw"
| "task_ops fw (AddTask tid nm res # ops) =
     (case addTask fw tid nm res of
        Inl e \<Rightarrow> Inl e
      | Inr (t, fw') \<Rightarrow> task_ops fw' ops)"
| "task_ops fw (RemoveTask tid # ops) = task_ops (removeTask fw tid) ops"

text \<open>
  The accounting invariant of a framework: its \<^verbatim>\<open>resources\<close> member is the sum of the
  resources of the tasks in its map (a finite map, as an \<^verbatim>\<open>unordered_map\<close> is).
\<close>

definition resources_accounted :: "('r::comm_monoid_add, 'p) Framework \<Rightarrow> bool" where
  "resources_accounted fw \<longleftrightarrow>
     finite (dom (tasks fw)) \<and>
     fw_resources fw = (\<Sum>tid \<in> dom (tasks fw). t_resources (the (tasks fw tid)))"

text \<open>Concrete values used to exercise the framework operations.\<close>

definition einfo0 :: ExecutorInfo where
  "einfo0 = \<lparr>uri = ''/bin/executor'', blob = []\<rparr>"

definition fw_two_tasks :: "(int, unit) Framework" where
  "fw_two_tasks =
     \<lparr>fw_id = ''f1'', fw_name = ''fw'', fw_user = ''usr'', executorInfo = einfo0,
      queuedTasks =
        [\<lparr>td_tid = ''t2'', td_name = ''b'', td_args = [], td_params = ()\<rparr>,
         \<lparr>td_tid = ''t1'', td_name = ''a'', td_args = [], td_params = ()\<rparr>,
         \<lparr>td_tid = ''t1'', td_name = ''c'', td_args = [], td_params = ()\<rparr>],
      tasks =
        [''t1'' \<mapsto> \<lparr>t_id = ''t1'', t_frameworkId = ''f1'', t_resources = 2,
                     t_state = TASK_RUNNING, t_name = ''a'', t_message = []\<rparr>,
         ''t2'' \<mapsto> \<lparr>t_id = ''t2'', t_frameworkId = ''f1'', t_resources = 3,
                     t_state = TASK_STARTING, t_name = ''b'', t_message = []\<rparr>],
      fw_resources = 5, executorStatus = []\<rparr>"

section \<open>The slave and its leader listener (slave.hpp)\<close>

text \<open>\<^verbatim>\<open>PID\<close> adds no member to \<^verbatim>\<open>UPID\<close>.\<close>

type_synonym PID = UPID

record Executor =
  e_frameworkId :: FrameworkID
  e_pid :: PID

text \<open>
  The data members of \<^verbatim>\<open>class Slave\<close>, but for the two pointers to collaborators
  (\<^verbatim>\<open>leaderDetector\<close>, \<^verbatim>\<open>isolationModule\<close>). The two maps own the records they point to.
\<close>

record ('r, 'p) Slave =
  isFT :: bool
  zkserver :: string
  master :: PID
  s_id :: SlaveID
  s_resources :: 'r
  local :: bool
  frameworks :: "FrameworkID \<rightharpoonup> ('r, 'p) Framework"
  executors :: "FrameworkID \<rightharpoonup> Executor"
  isolationType :: string

text \<open>
  What a call of the listener can touch: the slave it points to (\<^verbatim>\<open>parent\<close>), the
  messages the slave process has sent (\<^verbatim>\<open>parent->send\<close>), oldest first, and the lines
  written with \<^verbatim>\<open>LOG(INFO)\<close>. A line is the list of the things streamed into it.
\<close>

datatype message = LE2S_NEWLEADER string

datatype log_piece = Str string | Pid PID

record ('r, 'p) slave_world =
  slave :: "('r, 'p) Slave"
  sent :: "(PID \<times> message) list"
  logged :: "log_piece list list"

record SlaveLeaderListener =
  parentPID :: PID

definition newLeaderElected ::
  "SlaveLeaderListener \<Rightarrow> string \<Rightarrow> string \<Rightarrow> ('r, 'p) slave_world \<Rightarrow> ('r, 'p) slave_world" where
  "newLeaderElected l zkId pidStr w =
     (if zkId \<noteq> [] then
        (let w1 = w\<lparr>logged := logged w @
                     [[Str ''Leader listener detected leader at '', Str pidStr,
                       Str '' with ephemeral id:'', Str zkId]]\<rparr>;
             w2 = w1\<lparr>slave := (slave w1)\<lparr>zkserver := pidStr\<rparr>\<rparr>;
             w3 = w2\<lparr>logged := logged w2 @
                     [[Str ''Sending message to parent '', Pid (parentPID l),
                       Str '' about new leader'']]\<rparr>
         in w3\<lparr>sent := sent w3 @ [(parentPID l, LE2S_NEWLEADER pidStr)]\<rparr>)
      else w)"

text \<open>
  A sequence of election events \<open>(zkId, pidStr)\<close> delivered to the listener, the first of
  the list first.
\<close>

fun deliver ::
  "SlaveLeaderListener \<Rightarrow> (string \<times> string) list \<Rightarrow> ('r, 'p) slave_world \<Rightarrow> ('r, 'p) slave_world" where
  "deliver l [] w = w"
| "deliver l ((zkId, pidStr) # evs) w = deliver l evs (newLeaderElected l zkId pidStr w)"

text \<open>A listener and a world to exercise it.\<close>

definition listener0 :: SlaveLeaderListener where
  "listener0 = \<lparr>parentPID = \<lparr>u_id = ''slave'', ip = 0x7F000001, port = 5051\<rparr>\<rparr>"

definition world0 :: "(int, unit) slave_world" where
  "world0 =
     \<lparr>slave = \<lparr>isFT = True, zkserver = ''zoo:2181'', master = UPID_default, s_id = [],
               s_resources = 4, local = False, frameworks = Map.empty,
               executors = Map.empty, isolationType = ''process''\<rparr>,
      sent = [], logged = []\<rparr>"

section \<open>The slave's operations on frameworks and executors\<close>

text \<open>
  The header declares the operations of the slave; their bodies are in a source file
  that is not at hand, so each one below is modelled from the specification of the
  slave state machine and from the comment at its declaration.
\<close>















section \<open>The master binary (master\_main.cpp)\<close>

text \<open>
  The table of long options as \<^verbatim>\<open>main\<close> declares it: an array of four elements.
  \<^verbatim>\<open>name\<close> is a \<^verbatim>\<open>const char *\<close> and \<^verbatim>\<open>flag\<close> an \<^verbatim>\<open>int *\<close>; \<open>None\<close> is the null pointer.
\<close>

datatype has_arg = no_argument | required_argument | optional_argument

record option_entry =
  o_name :: "string option"
  o_has_arg :: has_arg
  o_flag :: "addr option"
  o_val :: char

definition options :: "option_entry list" where
  "options =
     [\<lparr>o_name = Some ''allocator'', o_has_arg = required_argument, o_flag = None, o_val = CHR ''a''\<rparr>,
      \<lparr>o_name = Some ''port'', o_has_arg = required_argument, o_flag = None, o_val = CHR ''p''\<rparr>,
      \<lparr>o_name = Some ''fault-tolerant'', o_has_arg = required_argument, o_flag = None, o_val = CHR ''f''\<rparr>,
      \<lparr>o_name = Some ''quiet'', o_has_arg = no_argument, o_flag = None, o_val = CHR ''q''\<rparr>]"

text \<open>
  \<^verbatim>\<open>getopt_long\<close> is given a pointer to the first element of the table and no length.
  Its manual requires the last element of the array to be filled with zeros: that
  element is how it finds the end. Looking a long option up, it goes through the
  elements from the first one, stops at an element whose name is the option (an exact
  match) and otherwise goes on until it meets a null name. On an array that has no such
  element it goes on to the element after the last one, which is a read outside the
  array. (An abbreviation of a name is no exact match and makes it go to the end too.)
\<close>

datatype lookup = Found nat | Not_found | Out_of_bounds nat

fun long_lookup :: "option_entry list \<Rightarrow> nat \<Rightarrow> string \<Rightarrow> lookup" where
  "long_lookup [] i nm = Out_of_bounds i"
| "long_lookup (e # es) i nm =
     (case o_name e of
        None \<Rightarrow> Not_found
      | Some n \<Rightarrow> if n = nm then Found i else long_lookup es (Suc i) nm)"

definition zero_entry :: option_entry where
  "zero_entry = \<lparr>o_name = None, o_has_arg = no_argument, o_flag = None, o_val = CHR 0x00\<rparr>"

text \<open>
  \<^verbatim>\<open>getopt_long\<close> belongs to the C library, not to this program; what follows is its
  behaviour as its manual describes it, for an option string that starts with neither
  \<open>+\<close>, \<open>-\<close> nor \<open>:\<close> and with \<^verbatim>\<open>POSIXLY_CORRECT\<close> unset. A call returns an option
  character together with \<^verbatim>\<open>optarg\<close> (\<open>None\<close> for a \<^verbatim>\<open>NULL\<close> pointer); a call that has
  to read the table outside the array has no defined result.
\<close>

datatype getopt_value = Value char "string option" | Out_of_table nat

text \<open>
  What the option string says of a character: not an option, an option without argument
  (the character alone), with a required argument (followed by one colon) or with an
  optional one (two colons).
\<close>

fun short_spec :: "string \<Rightarrow> char \<Rightarrow> has_arg option" where
  "short_spec [] c = None"
| "short_spec (x # xs) c =
     (if x = c \<and> c \<noteq> CHR '':'' \<and> c \<noteq> CHR '';'' then
        (case xs of
           y # z # _ \<Rightarrow>
             if y = CHR '':'' \<and> z = CHR '':'' then Some optional_argument
             else if y = CHR '':'' then Some required_argument
             else Some no_argument
         | [y] \<Rightarrow> if y = CHR '':'' then Some required_argument else Some no_argument
         | [] \<Rightarrow> Some no_argument)
      else short_spec xs c)"

text \<open>
  The characters after the \<open>-\<close> of one element, one call for each: an unknown character
  gives \<open>?\<close>; an option with a required argument takes the rest of the element as its
  argument or, when nothing is left, the next element of the command line (\<open>?\<close> when
  there is none). The second component tells whether the next element was taken.
\<close>

fun short_cluster :: "string \<Rightarrow> string \<Rightarrow> string list \<Rightarrow> getopt_value list \<times> bool" where
  "short_cluster os [] rest = ([], False)"
| "short_cluster os (c # cs) rest =
     (case short_spec os c of
        None \<Rightarrow> (Value (CHR ''?'') None # fst (short_cluster os cs rest),
                  snd (short_cluster os cs rest))
      | Some no_argument \<Rightarrow> (Value c None # fst (short_cluster os cs rest),
                  snd (short_cluster os cs rest))
      | Some required_argument \<Rightarrow>
          (if cs \<noteq> [] then ([Value c (Some cs)], False)
           else (case rest of
                   [] \<Rightarrow> ([Value (CHR ''?'') None], False)
                 | a # _ \<Rightarrow> ([Value c (Some a)], True)))
      | Some optional_argument \<Rightarrow>
          ([Value c (if cs \<noteq> [] then Some cs else None)], False))"

text \<open>
  Abbreviations of long options: when the table has its terminating element and no name
  is the option exactly, the names that start with the option are the candidates; one
  candidate, or several that agree in everything but the name, stand for the option.
\<close>

definition abbreviated :: "option_entry list \<Rightarrow> string \<Rightarrow> option_entry option" where
  "abbreviated tbl nm =
     (case filter (\<lambda>e. case o_name e of Some n \<Rightarrow> take (length nm) n = nm | None \<Rightarrow> False)
             (takeWhile (\<lambda>e. o_name e \<noteq> None) tbl) of
        [] \<Rightarrow> None
      | e # es \<Rightarrow>
          if list_all (\<lambda>e'. o_has_arg e' = o_has_arg e \<and> o_flag e' = o_flag e \<and> o_val e' = o_val e) es
          then Some e else None)"

text \<open>
  What is returned for the table element of a long option: its \<^verbatim>\<open>val\<close> when \<^verbatim>\<open>flag\<close>
  is null (0 otherwise). \<open>body\<close> is the element without its \<open>--\<close>; the argument is what
  follows the first \<open>=\<close> or, for a required argument without \<open>=\<close>, the next element.
\<close>

definition long_found :: "option_entry \<Rightarrow> string \<Rightarrow> string list \<Rightarrow> getopt_value \<times> bool" where
  "long_found e body rest =
     (let has_eq = (CHR ''='' \<in> set body);
          arg = drop 1 (dropWhile (\<lambda>c. c \<noteq> CHR ''='') body);
          ret = (if o_flag e = None then o_val e else CHR 0x00)
      in case o_has_arg e of
           no_argument \<Rightarrow>
             if has_eq then (Value (CHR ''?'') None, False) else (Value ret None, False)
         | required_argument \<Rightarrow>
             if has_eq then (Value ret (Some arg), False)
             else (case rest of
                     [] \<Rightarrow> (Value (CHR ''?'') None, False)
                   | a # _ \<Rightarrow> (Value ret (Some a), True))
         | optional_argument \<Rightarrow>
             (Value ret (if has_eq then Some arg else None), False))"

definition long_option :: "option_entry list \<Rightarrow> string \<Rightarrow> string list \<Rightarrow> getopt_value \<times> bool" where
  "long_option tbl body rest =
     (case long_lookup tbl 0 (takeWhile (\<lambda>c. c \<noteq> CHR ''='') body) of
        Out_of_bounds i \<Rightarrow> (Out_of_table i, False)
      | Found i \<Rightarrow> long_found (tbl ! i) body rest
      | Not_found \<Rightarrow>
          (case abbreviated tbl (takeWhile (\<lambda>c. c \<noteq> CHR ''='') body) of
             Some e \<Rightarrow> long_found e body rest
           | None \<Rightarrow> (Value (CHR ''?'') None, False)))"

text \<open>
  The values returned by the successive calls before \<open>-1\<close>, for the elements of the
  command line after \<^verbatim>\<open>argv[0]\<close>: \<open>--\<close> ends the options, an element that starts with
  \<open>--\<close> is a long option, another one that starts with \<open>-\<close> and is not \<open>-\<close> alone holds
  short options, and every other element is skipped. The calls end at a read outside
  the table.
\<close>

fun getopt_scan :: "string \<Rightarrow> option_entry list \<Rightarrow> string list \<Rightarrow> getopt_value list" where
  "getopt_scan os tbl [] = []"
| "getopt_scan os tbl (x # xs) =
     (if x = ''--'' then []
      else if take 2 x = ''--'' then
        (case fst (long_option tbl (drop 2 x) xs) of
           Out_of_table i \<Rightarrow> [Out_of_table i]
         | Value c a \<Rightarrow>
             Value c a #
               getopt_scan os tbl (if snd (long_option tbl (drop 2 x) xs) then tl xs else xs))
      else if take 1 x = ''-'' \<and> x \<noteq> ''-'' then
        fst (short_cluster os (tl x) xs) @
          getopt_scan os tbl (if snd (short_cluster os (tl x) xs) then tl xs else xs)
      else getopt_scan os tbl xs)"

definition getopt_long :: "string list \<Rightarrow> string \<Rightarrow> option_entry list \<Rightarrow> getopt_value list" where
  "getopt_long argv optstring longopts = getopt_scan optstring longopts (tl argv)"

text \<open>
  The local variables of \<^verbatim>\<open>main\<close> that the loop assigns, and the environment variable
  \<^verbatim>\<open>LIBPROCESS_PORT\<close> (\<open>None\<close> as long as \<^verbatim>\<open>setenv\<close> has not been called).
\<close>

record main_locals =
  m_isFT :: bool
  m_zkserver :: string
  m_quiet :: bool
  m_allocator :: string
  m_LIBPROCESS_PORT :: "string option"

text \<open>
  The ways \<^verbatim>\<open>main\<close> ends before it spawns the master: a call of \<^verbatim>\<open>exit\<close>, with what
  \<^verbatim>\<open>main\<close> itself wrote to \<^verbatim>\<open>cerr\<close> before; the use of a \<^verbatim>\<open>NULL\<close> \<^verbatim>\<open>optarg\<close> as a C
  string; a read outside the table of long options. The last two are undefined.
\<close>

datatype stop = Exit int string | Null_optarg | Table_overrun nat

text \<open>The loop of \<^verbatim>\<open>main\<close> over the values that \<^verbatim>\<open>getopt_long\<close> returns before \<open>-1\<close>.\<close>

fun options_loop :: "main_locals \<Rightarrow> getopt_value list \<Rightarrow> stop + main_locals" where
  "options_loop st [] = Inr st"
| "options_loop st (Out_of_table i # rest) = Inl (Table_overrun i)"
| "options_loop st (Value opt optarg # rest) =
     (if opt = CHR ''a'' then
        (case optarg of
           Some s \<Rightarrow> options_loop (st\<lparr>m_allocator := s\<rparr>) rest
         | None \<Rightarrow> Inl Null_optarg)
      else if opt = CHR ''p'' then
        (case optarg of
           Some s \<Rightarrow> options_loop (st\<lparr>m_LIBPROCESS_PORT := Some s\<rparr>) rest
         | None \<Rightarrow> Inl Null_optarg)
      else if opt = CHR ''f'' then
        (case optarg of
           Some s \<Rightarrow> options_loop (st\<lparr>m_isFT := True, m_zkserver := s\<rparr>) rest
         | None \<Rightarrow> Inl Null_optarg)
      else if opt = CHR ''q'' then options_loop (st\<lparr>m_quiet := True\<rparr>) rest
      else if opt = CHR ''?'' then Inl (Exit 1 [])
      else options_loop st rest)"

definition usage :: "string \<Rightarrow> string" where
  "usage programName =
     ''Usage: '' @ programName @
     '' [--port PORT] [--allocator ALLOCATOR] [--fault-tolerant ZOOKEEPERSERVER] [--quiet]'' @
     [CHR 0x0A]"

text \<open>
  A run that gets past the options: whether \<^verbatim>\<open>SetStderrLogging(google::INFO)\<close> was
  called, the logging set-up, the \<^verbatim>\<open>LOG(INFO)\<close> lines, the arguments given to the
  constructor of \<^verbatim>\<open>Master\<close>, and the value \<^verbatim>\<open>main\<close> returns: \<open>None\<close> when the master
  process never terminates, so that \<^verbatim>\<open>Process::wait\<close> does not return.
\<close>

record master_run =
  stderr_info :: bool
  logbufsecs :: int
  logging_name :: string
  info_lines :: "string list"
  LIBPROCESS_PORT :: "string option"
  master_allocator :: string
  master_isFT :: bool
  master_zkserver :: string
  returned :: "int option"

text \<open>
  \<^verbatim>\<open>main\<close>, for \<open>argc \<ge> 1\<close>: \<open>argv0\<close> is \<^verbatim>\<open>argv[0]\<close> and \<open>args\<close> are the arguments after
  it. The macros \<^verbatim>\<open>BUILD_DATE\<close> and \<^verbatim>\<open>BUILD_USER\<close> come from the build and are
  parameters; \<open>master_terminates\<close> tells whether the spawned master process ever
  terminates.
\<close>

definition main :: "string \<Rightarrow> string \<Rightarrow> string \<Rightarrow> string list \<Rightarrow> bool \<Rightarrow> stop + master_run" where
  "main BUILD_DATE BUILD_USER argv0 args master_terminates =
     (if length (argv0 # args) = 2 \<and> ''--help'' = (argv0 # args) ! 1 then
        Inl (Exit 1 (usage argv0))
      else
        (case options_loop
                \<lparr>m_isFT = False, m_zkserver = [], m_quiet = False,
                 m_allocator = ''simple'', m_LIBPROCESS_PORT = None\<rparr>
                (getopt_long (argv0 # args) ''a:p:f:q'' options) of
           Inl s \<Rightarrow> Inl s
         | Inr st \<Rightarrow>
             Inr \<lparr>stderr_info = (\<not> m_quiet st),
                  logbufsecs = 1,
                  logging_name = argv0,
                  info_lines =
                    [''Build: '' @ BUILD_DATE @ '' by '' @ BUILD_USER, ''Starting Nexus master'']
                    @ (if m_isFT st then [''Nexus in fault-tolerant mode''] else []),
                  LIBPROCESS_PORT = m_LIBPROCESS_PORT st,
                  master_allocator = m_allocator st,
                  master_isFT = m_isFT st,
                  master_zkserver = m_zkserver st,
                  returned = (if master_terminates then Some 0 else None)\<rparr>))"

text \<open>The exit code of the process, when it has one.\<close>

fun exit_code :: "stop + master_run \<Rightarrow> int option" where
  "exit_code (Inl (Exit c _)) = Some c"
| "exit_code (Inl Null_optarg) = None"
| "exit_code (Inl (Table_overrun _)) = None"
| "exit_code (Inr r) = returned r"

text \<open>
  Command lines, as the usage message describes them. The options with an argument can
  be written \<^verbatim>\<open>--name value\<close> or \<^verbatim>\<open>--name=value\<close>, and with their letter \<^verbatim>\<open>-c value\<close>
  or \<^verbatim>\<open>-cvalue\<close> (the value not empty); \<^verbatim>\<open>--quiet\<close> has the letter \<open>q\<close>, and any number
  of \<open>q\<close> can stand before the letter of another option in the same element. Elements
  that are \<open>-\<close> or do not start with \<open>-\<close> are operands, and after an element \<open>--\<close>
  everything is an operand.
\<close>

datatype opt_name = Allocator | Port | Fault_tolerant

fun long_name :: "opt_name \<Rightarrow> string" where
  "long_name Allocator = ''allocator''"
| "long_name Port = ''port''"
| "long_name Fault_tolerant = ''fault-tolerant''"

fun short_char :: "opt_name \<Rightarrow> char" where
  "short_char Allocator = CHR ''a''"
| "short_char Port = CHR ''p''"
| "short_char Fault_tolerant = CHR ''f''"

datatype item =
    Long opt_name bool string
  | Quiet_long
  | Short nat "(opt_name \<times> bool \<times> string) option"
  | Operand string

fun render_item :: "item \<Rightarrow> string list" where
  "render_item (Long n False v) = [''--'' @ long_name n, v]"
| "render_item (Long n True v) = [''--'' @ long_name n @ ''='' @ v]"
| "render_item Quiet_long = [''--quiet'']"
| "render_item (Short k None) = [''-'' @ replicate k (CHR ''q'')]"
| "render_item (Short k (Some (n, False, v))) = [''-'' @ replicate k (CHR ''q'') @ [short_char n], v]"
| "render_item (Short k (Some (n, True, v))) = [''-'' @ replicate k (CHR ''q'') @ [short_char n] @ v]"
| "render_item (Operand s) = [s]"

fun wf_item :: "item \<Rightarrow> bool" where
  "wf_item (Short k (Some (n, True, v))) = (v \<noteq> [])"
| "wf_item (Operand s) = (s = ''-'' \<or> take 1 s \<noteq> ''-'')"
| "wf_item _ = True"

definition command_line :: "item list \<Rightarrow> string list option \<Rightarrow> string list" where
  "command_line items operands =
     concat (map render_item items) @
     (case operands of None \<Rightarrow> [] | Some ws \<Rightarrow> ''--'' # ws)"

text \<open>
  What a command line asks for: the arguments of its \<^verbatim>\<open>fault-tolerant\<close> options, in
  order, and whether it has the option \<^verbatim>\<open>quiet\<close>.
\<close>

fun fault_tolerant_args :: "item \<Rightarrow> string list" where
  "fault_tolerant_args (Long Fault_tolerant _ v) = [v]"
| "fault_tolerant_args (Short k (Some (Fault_tolerant, _, v))) = [v]"
| "fault_tolerant_args _ = []"

fun is_quiet :: "item \<Rightarrow> bool" where
  "is_quiet Quiet_long = True"
| "is_quiet (Short k _) = (0 < k)"
| "is_quiet _ = False"

text \<open>The values \<^verbatim>\<open>getopt_long\<close> is to report for an item, and the arguments of \<open>f\<close> among values.\<close>

fun item_values :: "item \<Rightarrow> getopt_value list" where
  "item_values (Long n _ v) = [Value (short_char n) (Some v)]"
| "item_values Quiet_long = [Value (CHR ''q'') None]"
| "item_values (Short k None) = replicate k (Value (CHR ''q'') None)"
| "item_values (Short k (Some (n, _, v))) =
     replicate k (Value (CHR ''q'') None) @ [Value (short_char n) (Some v)]"
| "item_values (Operand s) = []"

fun f_args :: "getopt_value list \<Rightarrow> string list" where
  "f_args [] = []"
| "f_args (Value c (Some s) # vs) = (if c = CHR ''f'' then s # f_args vs else f_args vs)"
| "f_args (_ # vs) = f_args vs"

fun good_value :: "getopt_value \<Rightarrow> bool" where
  "good_value (Value c (Some s)) = (c = CHR ''a'' \<or> c = CHR ''p'' \<or> c = CHR ''f'')"
| "good_value (Value c None) = (c = CHR ''q'')"
| "good_value (Out_of_table i) = False"

text \<open>A command line to exercise \<^verbatim>\<open>main\<close>: \<^verbatim>\<open>-q --fault-tolerant zoo:2181 x --port=80 -- -y\<close>.\<close>

definition items_example :: "item list" where
  "items_example =
     [Short 1 None, Long Fault_tolerant False ''zoo:2181'', Operand ''x'', Long Port True ''80'']"

text \<open>The values at which the loop of \<^verbatim>\<open>main\<close> does not stop.\<close>

fun passes :: "getopt_value \<Rightarrow> bool" where
  "passes (Out_of_table i) = False"
| "passes (Value c None) = (c \<noteq> CHR ''?'' \<and> c \<noteq> CHR ''a'' \<and> c \<noteq> CHR ''p'' \<and> c \<noteq> CHR ''f'')"
| "passes (Value c (Some s)) = (c \<noteq> CHR ''?'')"

text \<open>
  The shapes of the characters after the \<open>-\<close> of an element of short options that
  \<^verbatim>\<open>main\<close> gets through: some \<open>q\<close>, then nothing, or the letter of an option with its
  argument joined, or that letter alone with the argument in the next element.
\<close>

definition cluster_shape :: "string \<Rightarrow> string list \<Rightarrow> bool \<Rightarrow> nat \<Rightarrow> bool" where
  "cluster_shape cs rest used k \<longleftrightarrow>
     (cs = replicate k (CHR ''q'') \<and> \<not> used) \<or>
     (\<exists>n v. v \<noteq> [] \<and> cs = replicate k (CHR ''q'') @ short_char n # v \<and> \<not> used) \<or>
     (\<exists>n a rest'. cs = replicate k (CHR ''q'') @ [short_char n] \<and> rest = a # rest' \<and> used)"

section \<open>The order on process identifiers\<close>

lemma upid_eq_fields:
  "upid_eq h a b \<longleftrightarrow>
     u_id (h a) = u_id (h b) \<and> ip (h a) = ip (h b) \<and> port (h a) = port (h b)"
  by (simp add: upid_eq_def)

lemma upid_less_lex:
  "upid_less h a b \<longleftrightarrow>
     ip (h a) < ip (h b) \<or>
     (ip (h a) = ip (h b) \<and>
       (port (h a) < port (h b) \<or>
        (port (h a) = port (h b) \<and> u_id (h a) < u_id (h b))))"
  by (cases "a = b") (simp_all add: upid_less_def)

lemma upid_less_irrefl: "\<not> upid_less h a a"
  by (simp add: upid_less_def)

lemma lex3_trans:
  fixes x1 x2 x3 :: "'a::linorder" and y1 y2 y3 :: "'b::linorder" and z1 z2 z3 :: "'c::linorder"
  assumes "x1 < x2 \<or> (x1 = x2 \<and> (y1 < y2 \<or> (y1 = y2 \<and> z1 < z2)))"
    and "x2 < x3 \<or> (x2 = x3 \<and> (y2 < y3 \<or> (y2 = y3 \<and> z2 < z3)))"
  shows "x1 < x3 \<or> (x1 = x3 \<and> (y1 < y3 \<or> (y1 = y3 \<and> z1 < z3)))"
  using assms by (elim disjE conjE) (simp_all, (blast intro: less_trans)+)

lemma upid_less_trans:
  assumes "upid_less h a b" and "upid_less h b c"
  shows "upid_less h a c"
  using assms unfolding upid_less_lex by (rule lex3_trans)

lemma lex3_trichotomy:
  fixes x1 x2 :: "'a::linorder" and y1 y2 :: "'b::linorder" and z1 z2 :: "'c::linorder"
  defines "lt \<equiv> x1 < x2 \<or> (x1 = x2 \<and> (y1 < y2 \<or> (y1 = y2 \<and> z1 < z2)))"
    and "gt \<equiv> x2 < x1 \<or> (x2 = x1 \<and> (y2 < y1 \<or> (y2 = y1 \<and> z2 < z1)))"
    and "eq \<equiv> z1 = z2 \<and> x1 = x2 \<and> y1 = y2"
  shows "(lt \<and> \<not> gt \<and> \<not> eq) \<or> (\<not> lt \<and> gt \<and> \<not> eq) \<or> (\<not> lt \<and> \<not> gt \<and> eq)"
proof -
  consider "x1 < x2" | "x2 < x1" | "x1 = x2" "y1 < y2" | "x1 = x2" "y2 < y1"
    | "x1 = x2" "y1 = y2" "z1 < z2" | "x1 = x2" "y1 = y2" "z2 < z1"
    | "x1 = x2" "y1 = y2" "z1 = z2"
    by (metis less_linear)
  then show ?thesis
    unfolding lt_def gt_def eq_def by cases (auto simp add: not_less less_imp_le)
qed

lemma upid_trichotomy:
  "(upid_less h a b \<and> \<not> upid_less h b a \<and> \<not> upid_eq h a b) \<or>
   (\<not> upid_less h a b \<and> upid_less h b a \<and> \<not> upid_eq h a b) \<or>
   (\<not> upid_less h a b \<and> \<not> upid_less h b a \<and> upid_eq h a b)"
  unfolding upid_less_lex upid_eq_fields by (rule lex3_trichotomy)

text \<open>
  C10. \<^verbatim>\<open>operator<\<close> on UPID is a strict total order consistent with \<^verbatim>\<open>operator==\<close>:
  for all objects \<open>a\<close>, \<open>b\<close>, \<open>c\<close> of any store (the same object or different ones), it is
  irreflexive and transitive, exactly one of \<open>a < b\<close>, \<open>b < a\<close>, \<open>a == b\<close> holds,
  \<open>a == b\<close> holds if and only if the id, ip and port fields are pairwise equal, and
  \<open>a != b\<close> is the negation of \<open>a == b\<close>.
\<close>

theorem UPID_less_strict_total_order:
  "\<not> upid_less h a a \<and>
   (upid_less h a b \<and> upid_less h b c \<longrightarrow> upid_less h a c) \<and>
   ((upid_less h a b \<and> \<not> upid_less h b a \<and> \<not> upid_eq h a b) \<or>
    (\<not> upid_less h a b \<and> upid_less h b a \<and> \<not> upid_eq h a b) \<or>
    (\<not> upid_less h a b \<and> \<not> upid_less h b a \<and> upid_eq h a b)) \<and>
   (upid_eq h a b \<longleftrightarrow>
      u_id (h a) = u_id (h b) \<and> ip (h a) = ip (h b) \<and> port (h a) = port (h b)) \<and>
   (upid_neq h a b \<longleftrightarrow> \<not> upid_eq h a b)"
proof (intro conjI impI)
  show "\<not> upid_less h a a" by (rule upid_less_irrefl)
  show "upid_less h a c" if "upid_less h a b \<and> upid_less h b c"
    using that by (blast intro: upid_less_trans)
  show "(upid_less h a b \<and> \<not> upid_less h b a \<and> \<not> upid_eq h a b) \<or>
    (\<not> upid_less h a b \<and> upid_less h b a \<and> \<not> upid_eq h a b) \<or>
    (\<not> upid_less h a b \<and> \<not> upid_less h b a \<and> upid_eq h a b)"
    by (rule upid_trichotomy)
  show "upid_eq h a b \<longleftrightarrow>
      u_id (h a) = u_id (h b) \<and> ip (h a) = ip (h b) \<and> port (h a) = port (h b)"
    by (rule upid_eq_fields)
  show "upid_neq h a b \<longleftrightarrow> \<not> upid_eq h a b"
    by (simp add: upid_neq_def)
qed

text \<open>
  Three objects at the addresses 0, 1 and 2: the first two on the same host and port
  with ids \<open>master\<close> and \<open>slave\<close>, the third on a greater port.
\<close>

theorem UPID_less_strict_total_order_witness:
  "upid_less upid_store3 0 1 \<and> upid_less upid_store3 1 2 \<and> upid_less upid_store3 0 2 \<and>
   \<not> upid_less upid_store3 1 0 \<and> \<not> upid_eq upid_store3 0 1 \<and> upid_neq upid_store3 0 1"
proof -
  have 1: "upid_less upid_store3 0 1"
    by (simp add: upid_less_def upid_store3_def)
  have 2: "upid_less upid_store3 1 2"
    by (simp add: upid_less_def upid_store3_def)
  show ?thesis
    using 1 2 UPID_less_strict_total_order [of upid_store3 0 1 2] by blast
qed

section \<open>Resource accounting of a framework\<close>

lemma Framework_new_accounted: "resources_accounted (Framework_new fid nm usr einfo)"
  by (simp add: resources_accounted_def Framework_new_def)

lemma addTask_resources:
  "addTask fw tid nm res = Inr (t, fw') \<Longrightarrow> fw_resources fw' = fw_resources fw + res"
  by (auto simp add: addTask_def Let_def split: if_splits)

lemma addTask_accounted:
  fixes fw :: "('r::comm_monoid_add, 'p) Framework"
  assumes inv: "resources_accounted fw" and add: "addTask fw tid nm res = Inr (t, fw')"
  shows "resources_accounted fw'"
proof -
  from add have fresh: "tasks fw tid = None"
    by (simp add: addTask_def split: if_splits)
  from add fresh have tasks': "tasks fw' = (tasks fw)(tid \<mapsto> t)"
    and res_t: "t_resources t = res"
    and res': "fw_resources fw' = fw_resources fw + res"
    by (auto simp add: addTask_def Let_def)
  from inv have fin: "finite (dom (tasks fw))"
    and sum: "fw_resources fw = (\<Sum>k \<in> dom (tasks fw). t_resources (the (tasks fw k)))"
    by (simp_all add: resources_accounted_def)
  from fresh have notin: "tid \<notin> dom (tasks fw)"
    by (simp add: domIff)
  have same: "(\<Sum>k \<in> dom (tasks fw). t_resources (the (tasks fw' k)))
                = (\<Sum>k \<in> dom (tasks fw). t_resources (the (tasks fw k)))"
    by (rule sum.cong) (use notin tasks' in auto)
  have "(\<Sum>k \<in> dom (tasks fw'). t_resources (the (tasks fw' k)))
          = t_resources (the (tasks fw' tid)) + (\<Sum>k \<in> dom (tasks fw). t_resources (the (tasks fw' k)))"
    using fin notin by (simp add: tasks')
  also have "\<dots> = res + fw_resources fw"
    using same sum by (simp add: tasks' res_t)
  finally show ?thesis
    using fin res' by (simp add: resources_accounted_def tasks' add.commute)
qed

lemma removeTask_tasks:
  "tasks (removeTask fw tid) = (tasks fw)(tid := None)"
  by (cases "tasks fw tid") (simp_all add: removeTask_def Let_def fun_upd_idem)

lemma removeTask_resources:
  "fw_resources (removeTask fw tid) =
     (case tasks fw tid of Some t \<Rightarrow> fw_resources fw - t_resources t | None \<Rightarrow> fw_resources fw)"
  by (cases "tasks fw tid") (simp_all add: removeTask_def Let_def)

lemma removeTask_accounted:
  fixes fw :: "('r::cancel_comm_monoid_add, 'p) Framework"
  assumes inv: "resources_accounted fw"
  shows "resources_accounted (removeTask fw tid)"
proof (cases "tasks fw tid")
  case None
  then have "(tasks fw)(tid := None) = tasks fw"
    by (simp add: fun_upd_idem)
  with None inv show ?thesis
    by (simp add: resources_accounted_def removeTask_tasks removeTask_resources)
next
  case (Some t)
  from inv have fin: "finite (dom (tasks fw))"
    and sum: "fw_resources fw = (\<Sum>k \<in> dom (tasks fw). t_resources (the (tasks fw k)))"
    by (simp_all add: resources_accounted_def)
  from Some have mem: "tid \<in> dom (tasks fw)"
    by (simp add: domI)
  let ?rest = "dom (tasks fw) - {tid}"
  have split: "fw_resources fw = t_resources t + (\<Sum>k \<in> ?rest. t_resources (the (tasks fw k)))"
    using sum.remove [OF fin mem, of "\<lambda>k. t_resources (the (tasks fw k))"] sum Some by simp
  have same: "(\<Sum>k \<in> ?rest. t_resources (the (((tasks fw)(tid := None)) k)))
                = (\<Sum>k \<in> ?rest. t_resources (the (tasks fw k)))"
    by (rule sum.cong) auto
  have "fw_resources fw - t_resources t = (\<Sum>k \<in> ?rest. t_resources (the (tasks fw k)))"
    by (subst split) (rule add_diff_cancel_left')
  with fin same Some show ?thesis
    by (simp add: resources_accounted_def removeTask_tasks removeTask_resources)
qed

lemma task_ops_accounted:
  fixes fw :: "('r::cancel_comm_monoid_add, 'p) Framework"
  shows "resources_accounted fw \<Longrightarrow> task_ops fw ops = Inr fw' \<Longrightarrow> resources_accounted fw'"
proof (induction fw ops rule: task_ops.induct)
  case (1 fw)
  then show ?case by simp
next
  case (2 fw tid nm res ops)
  then show ?case
    by (auto split: sum.splits dest: addTask_accounted)
next
  case (3 fw tid ops)
  then show ?case
    by (simp add: removeTask_accounted)
qed

text \<open>
  C8. For every sequence of \<^verbatim>\<open>addTask\<close> and \<^verbatim>\<open>removeTask\<close> calls on a freshly
  constructed framework that runs to its end (a call of \<^verbatim>\<open>addTask\<close> with an id that is
  already in the map aborts the process and leaves no framework), the \<^verbatim>\<open>resources\<close>
  member is the sum of the resources of the tasks in the map. From there, \<^verbatim>\<open>addTask\<close>
  adds the resources of the new task and \<^verbatim>\<open>removeTask\<close> subtracts those of the task it
  removes. \<^verbatim>\<open>Resources\<close> is any type in which \<open>+\<close> is associative and commutative with
  unit \<open>0\<close> and \<open>(a + b) - a = b\<close>.
\<close>

theorem framework_resources_sum:
  fixes fw :: "('r::cancel_comm_monoid_add, 'p) Framework"
  assumes "task_ops (Framework_new fid nm usr einfo) ops = Inr fw"
  shows "finite (dom (tasks fw)) \<and>
         fw_resources fw = (\<Sum>tid \<in> dom (tasks fw). t_resources (the (tasks fw tid))) \<and>
         (\<forall>tid tnm res t fw'. addTask fw tid tnm res = Inr (t, fw') \<longrightarrow>
            fw_resources fw' = fw_resources fw + res) \<and>
         (\<forall>tid t. tasks fw tid = Some t \<longrightarrow>
            fw_resources (removeTask fw tid) = fw_resources fw - t_resources t)"
proof -
  have "resources_accounted fw"
    using Framework_new_accounted assms by (rule task_ops_accounted)
  then show ?thesis
    by (simp add: resources_accounted_def addTask_resources removeTask_resources)
qed

text \<open>Two tasks added, the first removed, a third added: 3 + 4 units are left.\<close>

theorem framework_resources_sum_witness:
  "\<exists>fw :: (int, unit) Framework.
     task_ops (Framework_new ''f1'' ''fw'' ''usr'' einfo0)
       [AddTask ''t1'' ''a'' 2, AddTask ''t2'' ''b'' 3, RemoveTask ''t1'', AddTask ''t3'' ''c'' 4]
       = Inr fw \<and>
     fw_resources fw = 7 \<and>
     fw_resources fw = (\<Sum>tid \<in> dom (tasks fw). t_resources (the (tasks fw tid))) \<and>
     lookupTask fw ''t1'' = None \<and>
     fw_resources (removeTask fw ''t2'') = 4"
proof -
  let ?ops = "[AddTask ''t1'' ''a'' 2, AddTask ''t2'' ''b'' 3, RemoveTask ''t1'',
               AddTask ''t3'' ''c'' (4::int)]"
  obtain fw :: "(int, unit) Framework"
    where run: "task_ops (Framework_new ''f1'' ''fw'' ''usr'' einfo0) ?ops = Inr fw"
      and res: "fw_resources fw = 7"
      and t1: "tasks fw ''t1'' = None"
      and t2: "tasks fw ''t2'' = Some \<lparr>t_id = ''t2'', t_frameworkId = ''f1'', t_resources = 3,
                     t_state = TASK_STARTING, t_name = ''b'', t_message = []\<rparr>"
    by (simp add: addTask_def removeTask_def Framework_new_def Let_def)
  from framework_resources_sum [OF run] t2 res
  have "fw_resources (removeTask fw ''t2'') = 4"
    and "fw_resources fw = (\<Sum>tid \<in> dom (tasks fw). t_resources (the (tasks fw tid)))"
    by auto
  with run res t1 show ?thesis
    by (auto simp add: lookupTask_def)
qed

section \<open>The frame of removeTask\<close>

lemma erase_queued_absent:
  "\<forall>d \<in> set ds. td_tid d \<noteq> tid \<Longrightarrow> erase_queued tid ds = ds"
  by (induction ds) simp_all

lemma erase_queued_first:
  "\<exists>d \<in> set ds. td_tid d = tid \<Longrightarrow>
   \<exists>ys d zs. ds = ys @ d # zs \<and> td_tid d = tid \<and> (\<forall>y \<in> set ys. td_tid y \<noteq> tid) \<and>
     erase_queued tid ds = ys @ zs"
proof (induction ds)
  case Nil
  then show ?case by simp
next
  case (Cons a ds)
  show ?case
  proof (cases "td_tid a = tid")
    case True
    then have "a # ds = [] @ a # ds \<and> td_tid a = tid \<and> (\<forall>y \<in> set []. td_tid y \<noteq> tid) \<and>
      erase_queued tid (a # ds) = [] @ ds"
      by simp
    then show ?thesis by blast
  next
    case False
    with Cons.prems have "\<exists>d \<in> set ds. td_tid d = tid" by auto
    from Cons.IH [OF this] obtain ys d zs where
      "ds = ys @ d # zs" "td_tid d = tid" "\<forall>y \<in> set ys. td_tid y \<noteq> tid"
      "erase_queued tid ds = ys @ zs"
      by blast
    with False have "a # ds = (a # ys) @ d # zs \<and> td_tid d = tid \<and>
      (\<forall>y \<in> set (a # ys). td_tid y \<noteq> tid) \<and> erase_queued tid (a # ds) = (a # ys) @ zs"
      by simp
    then show ?thesis by blast
  qed
qed

lemma removeTask_queuedTasks:
  "queuedTasks (removeTask fw tid) = erase_queued tid (queuedTasks fw)"
  by (cases "tasks fw tid") (simp_all add: removeTask_def Let_def)

text \<open>
  C9. After \<^verbatim>\<open>removeTask(tid)\<close> the map has no task \<open>tid\<close> (\<^verbatim>\<open>lookupTask\<close> returns
  \<^verbatim>\<open>NULL\<close>); the queue is unchanged when no queued description has the id, and has lost
  exactly the first such description otherwise; every task with another id is unchanged
  (the whole record: state and resources included); and when \<open>tid\<close> is not in the map,
  the map and the \<^verbatim>\<open>resources\<close> member are unchanged.
\<close>

theorem removeTask_frame:
  "lookupTask (removeTask fw tid) tid = None \<and>
   ((queuedTasks (removeTask fw tid) = queuedTasks fw \<and>
       (\<forall>d \<in> set (queuedTasks fw). td_tid d \<noteq> tid)) \<or>
    (\<exists>ys d zs. queuedTasks fw = ys @ d # zs \<and> td_tid d = tid \<and>
       (\<forall>y \<in> set ys. td_tid y \<noteq> tid) \<and>
       queuedTasks (removeTask fw tid) = ys @ zs)) \<and>
   (\<forall>tid'. tid' \<noteq> tid \<longrightarrow> lookupTask (removeTask fw tid) tid' = lookupTask fw tid') \<and>
   (lookupTask fw tid = None \<longrightarrow>
      tasks (removeTask fw tid) = tasks fw \<and>
      fw_resources (removeTask fw tid) = fw_resources fw)"
proof (intro conjI)
  show "lookupTask (removeTask fw tid) tid = None"
    by (simp add: lookupTask_def removeTask_tasks)
  show "(queuedTasks (removeTask fw tid) = queuedTasks fw \<and>
       (\<forall>d \<in> set (queuedTasks fw). td_tid d \<noteq> tid)) \<or>
    (\<exists>ys d zs. queuedTasks fw = ys @ d # zs \<and> td_tid d = tid \<and>
       (\<forall>y \<in> set ys. td_tid y \<noteq> tid) \<and>
       queuedTasks (removeTask fw tid) = ys @ zs)"
  proof (cases "\<exists>d \<in> set (queuedTasks fw). td_tid d = tid")
    case True
    from erase_queued_first [OF this] show ?thesis
      by (simp add: removeTask_queuedTasks)
  next
    case False
    then have "\<forall>d \<in> set (queuedTasks fw). td_tid d \<noteq> tid" by blast
    then show ?thesis
      by (simp add: removeTask_queuedTasks erase_queued_absent)
  qed
  show "\<forall>tid'. tid' \<noteq> tid \<longrightarrow> lookupTask (removeTask fw tid) tid' = lookupTask fw tid'"
    by (simp add: lookupTask_def removeTask_tasks)
  show "lookupTask fw tid = None \<longrightarrow>
      tasks (removeTask fw tid) = tasks fw \<and>
      fw_resources (removeTask fw tid) = fw_resources fw"
    by (cases "tasks fw tid")
      (simp_all add: lookupTask_def removeTask_tasks removeTask_resources fun_upd_idem)
qed

text \<open>
  A framework with tasks \<open>t1\<close> and \<open>t2\<close> and the queue \<open>t2, t1, t1\<close>: removing \<open>t1\<close>
  erases the first queued \<open>t1\<close> only; removing the unknown \<open>t9\<close> changes nothing.
\<close>

theorem removeTask_frame_witness:
  "lookupTask fw_two_tasks ''t1'' \<noteq> None \<and>
   lookupTask (removeTask fw_two_tasks ''t1'') ''t1'' = None \<and>
   lookupTask (removeTask fw_two_tasks ''t1'') ''t2'' = lookupTask fw_two_tasks ''t2'' \<and>
   queuedTasks (removeTask fw_two_tasks ''t1'') =
     [\<lparr>td_tid = ''t2'', td_name = ''b'', td_args = [], td_params = ()\<rparr>,
      \<lparr>td_tid = ''t1'', td_name = ''c'', td_args = [], td_params = ()\<rparr>] \<and>
   lookupTask fw_two_tasks ''t9'' = None \<and>
   tasks (removeTask fw_two_tasks ''t9'') = tasks fw_two_tasks \<and>
   fw_resources (removeTask fw_two_tasks ''t9'') = fw_resources fw_two_tasks \<and>
   queuedTasks (removeTask fw_two_tasks ''t9'') = queuedTasks fw_two_tasks"
proof -
  have absent: "lookupTask fw_two_tasks ''t9'' = None"
    by (simp add: lookupTask_def fw_two_tasks_def)
  have present: "lookupTask fw_two_tasks ''t1'' \<noteq> None"
    by (simp add: lookupTask_def fw_two_tasks_def)
  have queue: "queuedTasks (removeTask fw_two_tasks ''t1'') =
     [\<lparr>td_tid = ''t2'', td_name = ''b'', td_args = [], td_params = ()\<rparr>,
      \<lparr>td_tid = ''t1'', td_name = ''c'', td_args = [], td_params = ()\<rparr>]"
    by (simp add: removeTask_def fw_two_tasks_def Let_def)
  have queue9: "queuedTasks (removeTask fw_two_tasks ''t9'') = queuedTasks fw_two_tasks"
    by (simp add: removeTask_def fw_two_tasks_def Let_def)
  note t1 = removeTask_frame [of fw_two_tasks "''t1''"]
  note t9 = removeTask_frame [of fw_two_tasks "''t9''"]
  have gone: "lookupTask (removeTask fw_two_tasks ''t1'') ''t1'' = None"
    using t1 by (rule conjunct1)
  have other: "lookupTask (removeTask fw_two_tasks ''t1'') ''t2'' = lookupTask fw_two_tasks ''t2''"
    using t1 [THEN conjunct2, THEN conjunct2, THEN conjunct1] by simp
  have same: "tasks (removeTask fw_two_tasks ''t9'') = tasks fw_two_tasks \<and>
      fw_resources (removeTask fw_two_tasks ''t9'') = fw_resources fw_two_tasks"
    using t9 [THEN conjunct2, THEN conjunct2, THEN conjunct2] absent by (rule mp)
  have same_tasks: "tasks (removeTask fw_two_tasks ''t9'') = tasks fw_two_tasks"
    using same by (rule conjunct1)
  have same_res: "fw_resources (removeTask fw_two_tasks ''t9'') = fw_resources fw_two_tasks"
    using same by (rule conjunct2)
  show ?thesis
    by (intro conjI; fact)
qed

section \<open>A duplicate task id\<close>

text \<open>
  C1 (as the code has it). When \<^verbatim>\<open>addTask\<close> is called with a task id that is already
  in the framework's map, it writes the fatal diagnostic naming the task and the
  framework and the process aborts: no task is added and no state is left. When the id
  is not in the map, \<^verbatim>\<open>addTask\<close> does not abort: it returns the new task, in state
  \<^verbatim>\<open>TASK_STARTING\<close>, and stores it under the id.
\<close>

theorem addTask_duplicate_is_fatal:
  "(tasks fw tid \<noteq> None \<longrightarrow>
      addTask fw tid nm res =
        Inl (Fatal (''Task ID '' @ tid @ ''already exists in framework '' @ fw_id fw))) \<and>
   (tasks fw tid = None \<longrightarrow>
      (\<exists>t fw'. addTask fw tid nm res = Inr (t, fw') \<and>
         tasks fw' = (tasks fw)(tid \<mapsto> t) \<and>
         t = \<lparr>t_id = tid, t_frameworkId = fw_id fw, t_resources = res,
              t_state = TASK_STARTING, t_name = nm, t_message = []\<rparr>))"
  by (simp add: addTask_def Let_def)

theorem addTask_duplicate_is_fatal_witness:
  "tasks fw_two_tasks ''t1'' \<noteq> None \<and>
   addTask fw_two_tasks ''t1'' ''again'' 1 =
     Inl (Fatal ''Task ID t1already exists in framework f1'') \<and>
   tasks fw_two_tasks ''t9'' = None \<and>
   (\<exists>t fw'. addTask fw_two_tasks ''t9'' ''new'' 1 = Inr (t, fw') \<and>
      tasks fw' = (tasks fw_two_tasks)(''t9'' \<mapsto> t) \<and> t_state t = TASK_STARTING)"
proof -
  have dup: "tasks fw_two_tasks ''t1'' \<noteq> None"
    by (simp add: fw_two_tasks_def)
  have fresh: "tasks fw_two_tasks ''t9'' = None"
    by (simp add: fw_two_tasks_def)
  have id1: "fw_id fw_two_tasks = ''f1''"
    by (simp add: fw_two_tasks_def)
  from addTask_duplicate_is_fatal [of fw_two_tasks "''t1''" "''again''" 1] dup id1
  have abort: "addTask fw_two_tasks ''t1'' ''again'' 1 =
     Inl (Fatal ''Task ID t1already exists in framework f1'')"
    by simp
  from addTask_duplicate_is_fatal [of fw_two_tasks "''t9''" "''new''" 1] fresh
  have added: "\<exists>t fw'. addTask fw_two_tasks ''t9'' ''new'' 1 = Inr (t, fw') \<and>
      tasks fw' = (tasks fw_two_tasks)(''t9'' \<mapsto> t) \<and> t_state t = TASK_STARTING"
    by auto
  show ?thesis
    by (intro conjI; fact)
qed

text \<open>
  The claim that \<^verbatim>\<open>addTask\<close> never aborts the process fails on a framework that holds
  task \<open>t1\<close>, and on a fresh framework to which \<open>t1\<close> is added twice.
\<close>

theorem addTask_duplicate_counterexample:
  "addTask fw_two_tasks ''t1'' ''again'' 1 =
     Inl (Fatal ''Task ID t1already exists in framework f1'') \<and>
   task_ops (Framework_new ''f1'' ''fw'' ''usr'' einfo0 :: (int, unit) Framework)
     [AddTask ''t1'' ''a'' 2, AddTask ''t1'' ''b'' 3] =
     Inl (Fatal ''Task ID t1already exists in framework f1'')"
  by (simp add: addTask_def fw_two_tasks_def Framework_new_def Let_def)

section \<open>The leader listener\<close>

lemma newLeaderElected_sent:
  "sent (newLeaderElected l zkId pidStr w) =
     sent w @ (if zkId \<noteq> [] then [(parentPID l, LE2S_NEWLEADER pidStr)] else [])"
  by (simp add: newLeaderElected_def Let_def)

lemma newLeaderElected_zkserver:
  "zkserver (slave (newLeaderElected l zkId pidStr w)) =
     (if zkId \<noteq> [] then pidStr else zkserver (slave w))"
  by (simp add: newLeaderElected_def Let_def)

lemma deliver_sent:
  "sent (deliver l evs w) =
     sent w @ map (\<lambda>e. (parentPID l, LE2S_NEWLEADER (snd e))) (filter (\<lambda>e. fst e \<noteq> []) evs)"
  by (induction l evs w rule: deliver.induct) (simp_all add: newLeaderElected_sent)

lemma deliver_zkserver:
  "zkserver (slave (deliver l evs w)) =
     (case rev (filter (\<lambda>e. fst e \<noteq> []) evs) of
        [] \<Rightarrow> zkserver (slave w)
      | e # _ \<Rightarrow> snd e)"
  by (induction l evs w rule: deliver.induct)
    (simp_all add: newLeaderElected_zkserver split: list.splits)

lemma deliver_empty_ids: "deliver l (map (Pair []) ps) w = w"
  by (induction ps) (simp_all add: newLeaderElected_def)

text \<open>
  C2 (as the code has it). The listener keeps no record of the epochs it has seen. For
  every sequence of election events it sends one new-leader message for each event whose
  ephemeral id is not empty, in order, whatever the ids of the events before it; and the
  stored master locator is the one of the last such event (the old one when there is
  none).
\<close>

theorem listener_acts_on_every_nonempty_id:
  "sent (deliver l evs w) =
     sent w @ map (\<lambda>e. (parentPID l, LE2S_NEWLEADER (snd e))) (filter (\<lambda>e. fst e \<noteq> []) evs) \<and>
   zkserver (slave (deliver l evs w)) =
     (case rev (filter (\<lambda>e. fst e \<noteq> []) evs) of
        [] \<Rightarrow> zkserver (slave w)
      | e # _ \<Rightarrow> snd e)"
  using deliver_sent [of l evs w] deliver_zkserver [of l evs w] by (rule conjI)

text \<open>
  After an event of epoch 7, a second event of the same epoch 7 (not strictly greater)
  still sends a message and replaces the locator, and so does an event of the smaller
  epoch 3.
\<close>

theorem listener_stale_epoch_counterexample:
  "sent (newLeaderElected listener0 ''7'' ''master@10.0.0.2:5050''
           (newLeaderElected listener0 ''7'' ''master@10.0.0.1:5050'' world0))
     = sent (newLeaderElected listener0 ''7'' ''master@10.0.0.1:5050'' world0)
         @ [(parentPID listener0, LE2S_NEWLEADER ''master@10.0.0.2:5050'')] \<and>
   zkserver (slave (newLeaderElected listener0 ''7'' ''master@10.0.0.1:5050'' world0))
     = ''master@10.0.0.1:5050'' \<and>
   zkserver (slave (newLeaderElected listener0 ''7'' ''master@10.0.0.2:5050''
           (newLeaderElected listener0 ''7'' ''master@10.0.0.1:5050'' world0)))
     = ''master@10.0.0.2:5050'' \<and>
   zkserver (slave (newLeaderElected listener0 ''3'' ''master@10.0.0.3:5050''
           (newLeaderElected listener0 ''7'' ''master@10.0.0.1:5050'' world0)))
     = ''master@10.0.0.3:5050''"
  by (simp add: newLeaderElected_def Let_def)

text \<open>
  C5. An election event whose ephemeral id is the empty string changes nothing: the
  stored master locator, the messages sent and the log are as before, for one such event
  and for any sequence of them.
\<close>

theorem listener_ignores_empty_id:
  "newLeaderElected l [] pidStr w = w \<and> deliver l (map (Pair []) ps) w = w"
  by (simp add: deliver_empty_ids) (simp add: newLeaderElected_def)

section \<open>Executor records and framework records\<close>











section \<open>What getopt\_long reports for a command line\<close>

lemma short_spec_q: "short_spec ''a:p:f:q'' (CHR ''q'') = Some no_argument"
  by simp

lemma short_spec_name: "short_spec ''a:p:f:q'' (short_char n) = Some required_argument"
  by (cases n) simp_all

lemma short_cluster_none:
  "short_cluster ''a:p:f:q'' (replicate k (CHR ''q'')) rest
     = (replicate k (Value (CHR ''q'') None), False)"
  by (induction k) (simp_all add: short_spec_q)

lemma short_cluster_joined:
  "v \<noteq> [] \<Longrightarrow>
   short_cluster ''a:p:f:q'' (replicate k (CHR ''q'') @ short_char n # v) rest
     = (replicate k (Value (CHR ''q'') None) @ [Value (short_char n) (Some v)], False)"
  by (induction k) (simp_all add: short_spec_q short_spec_name del: short_spec.simps)

lemma short_cluster_separate:
  "short_cluster ''a:p:f:q'' (replicate k (CHR ''q'') @ [short_char n]) (v # rest)
     = (replicate k (Value (CHR ''q'') None) @ [Value (short_char n) (Some v)], True)"
  by (induction k) (simp_all add: short_spec_q short_spec_name del: short_spec.simps)

lemma long_option_separate:
  "long_option options (long_name n) (v # rest) = (Value (short_char n) (Some v), True)"
  by (cases n) (simp_all add: long_option_def long_found_def options_def)

lemma long_option_eq:
  "long_option options (long_name n @ CHR ''='' # v) rest = (Value (short_char n) (Some v), False)"
  by (cases n) (simp_all add: long_option_def long_found_def options_def)

lemma long_option_quiet:
  "long_option options ''quiet'' rest = (Value (CHR ''q'') None, False)"
  by (simp add: long_option_def long_found_def options_def)

lemma getopt_scan_short:
  assumes "x \<noteq> ''--''" and "take 2 x \<noteq> ''--''" and "take 1 x = ''-''" and "x \<noteq> ''-''"
  shows "getopt_scan os tbl (x # xs) =
           fst (short_cluster os (tl x) xs) @
             getopt_scan os tbl (if snd (short_cluster os (tl x) xs) then tl xs else xs)"
  using assms by simp

lemma cluster_with_letter:
  fixes k n v
  defines "x \<equiv> CHR ''-'' # replicate k (CHR ''q'') @ short_char n # v"
  shows "x \<noteq> ''--''" and "take 2 x \<noteq> ''--''" and "take 1 x = ''-''" and "x \<noteq> ''-''"
  unfolding x_def by (cases k; cases n; simp)+

lemma cluster_of_q:
  fixes k
  defines "x \<equiv> CHR ''-'' # replicate k (CHR ''q'')"
  assumes "0 < k"
  shows "x \<noteq> ''--''" and "take 2 x \<noteq> ''--''" and "take 1 x = ''-''" and "x \<noteq> ''-''"
  using assms(2) unfolding x_def by (cases k; simp)+

lemma take2_dashes: "take 2 s = ''--'' \<Longrightarrow> take 1 s = ''-'' \<and> s \<noteq> ''-''"
proof (cases s)
  case Nil
  then show "take 2 s = ''--'' \<Longrightarrow> ?thesis" by simp
next
  case (Cons c cs)
  then show "take 2 s = ''--'' \<Longrightarrow> ?thesis" by (cases cs) simp_all
qed

lemma getopt_scan_operand:
  assumes "s = ''-'' \<or> take 1 s \<noteq> ''-''"
  shows "getopt_scan os tbl (s # xs) = getopt_scan os tbl xs"
proof -
  from assms take2_dashes [of s] have "take 2 s \<noteq> ''--''" by blast
  moreover from assms have "s \<noteq> ''--''" by auto
  ultimately show ?thesis using assms by auto
qed

lemma getopt_scan_item:
  assumes "wf_item i"
  shows "getopt_scan ''a:p:f:q'' options (render_item i @ rest)
           = item_values i @ getopt_scan ''a:p:f:q'' options rest"
proof (cases i)
  case (Long n eq v)
  show ?thesis
  proof (cases eq)
    case True
    with Long show ?thesis
      by (cases n) (simp_all add: long_option_eq [of Allocator, simplified]
          long_option_eq [of Port, simplified] long_option_eq [of Fault_tolerant, simplified])
  next
    case False
    with Long show ?thesis
      by (cases n) (simp_all add: long_option_separate [of Allocator, simplified]
          long_option_separate [of Port, simplified]
          long_option_separate [of Fault_tolerant, simplified])
  qed
next
  case Quiet_long
  then show ?thesis by (simp add: long_option_quiet)
next
  case (Short k opt)
  show ?thesis
  proof (cases opt)
    case None
    show ?thesis
    proof (cases "k = 0")
      case True
      with None Short show ?thesis by simp
    next
      case False
      then have k: "0 < k" by simp
      have "getopt_scan ''a:p:f:q'' options ((CHR ''-'' # replicate k (CHR ''q'')) # rest)
              = replicate k (Value (CHR ''q'') None) @ getopt_scan ''a:p:f:q'' options rest"
        by (subst getopt_scan_short [OF cluster_of_q [OF k]])
          (simp add: short_cluster_none del: short_cluster.simps)
      with None Short show ?thesis by simp
    qed
  next
    case (Some t)
    obtain n joined v where t: "t = (n, joined, v)" by (cases t)
    show ?thesis
    proof (cases joined)
      case True
      with assms Short Some t have v: "v \<noteq> []" by simp
      have "getopt_scan ''a:p:f:q'' options
              ((CHR ''-'' # replicate k (CHR ''q'') @ short_char n # v) # rest)
              = (replicate k (Value (CHR ''q'') None) @ [Value (short_char n) (Some v)])
                  @ getopt_scan ''a:p:f:q'' options rest"
        by (subst getopt_scan_short [OF cluster_with_letter])
          (simp add: short_cluster_joined [OF v] del: short_cluster.simps)
      with True Short Some t show ?thesis by simp
    next
      case False
      have "getopt_scan ''a:p:f:q'' options
              ((CHR ''-'' # replicate k (CHR ''q'') @ [short_char n]) # v # rest)
              = (replicate k (Value (CHR ''q'') None) @ [Value (short_char n) (Some v)])
                  @ getopt_scan ''a:p:f:q'' options rest"
        by (subst getopt_scan_short [OF cluster_with_letter])
          (simp add: short_cluster_separate del: short_cluster.simps)
      with False Short Some t show ?thesis by simp
    qed
  qed
next
  case (Operand s)
  with assms show ?thesis by (simp add: getopt_scan_operand del: getopt_scan.simps)
qed

lemma getopt_scan_items:
  "list_all wf_item items \<Longrightarrow>
   getopt_scan ''a:p:f:q'' options (concat (map render_item items) @ rest)
     = concat (map item_values items) @ getopt_scan ''a:p:f:q'' options rest"
  by (induction items) (simp_all add: getopt_scan_item del: getopt_scan.simps)

lemma getopt_long_command_line:
  assumes "list_all wf_item items"
  shows "getopt_long (argv0 # command_line items operands) ''a:p:f:q'' options
           = concat (map item_values items)"
proof -
  have "getopt_scan ''a:p:f:q'' options (case operands of None \<Rightarrow> [] | Some ws \<Rightarrow> ''--'' # ws) = []"
    by (cases operands) simp_all
  with getopt_scan_items [OF assms] show ?thesis
    by (simp add: getopt_long_def command_line_def)
qed

lemma item_values_good: "list_all good_value (item_values i)"
proof (cases i)
  case (Long n eq v)
  then show ?thesis by (cases n) simp_all
next
  case (Short k opt)
  show ?thesis
  proof (cases opt)
    case None
    with Short show ?thesis by (simp add: list_all_iff)
  next
    case (Some t)
    obtain n joined v where "t = (n, joined, v)" by (cases t)
    with Some Short show ?thesis by (cases n) (simp_all add: list_all_iff)
  qed
qed simp_all

lemma items_values_good: "list_all good_value (concat (map item_values items))"
  by (induction items) (simp_all add: item_values_good)

lemma options_loop_good:
  "list_all good_value vs \<Longrightarrow>
   \<exists>st'. options_loop st vs = Inr st' \<and>
     (m_isFT st' \<longleftrightarrow> m_isFT st \<or> f_args vs \<noteq> []) \<and>
     m_zkserver st' = (if f_args vs = [] then m_zkserver st else last (f_args vs)) \<and>
     (m_quiet st' \<longleftrightarrow> m_quiet st \<or> Value (CHR ''q'') None \<in> set vs)"
proof (induction vs arbitrary: st)
  case Nil
  then show ?case by simp
next
  case (Cons v vs)
  then have rest: "list_all good_value vs" and v: "good_value v" by simp_all
  show ?case
  proof (cases v)
    case (Out_of_table i)
    with v show ?thesis by simp
  next
    case (Value c a)
    show ?thesis
    proof (cases a)
      case None
      with v Value have c: "c = CHR ''q''" by simp
      from Cons.IH [OF rest, of "st\<lparr>m_quiet := True\<rparr>"] c None Value show ?thesis
        by auto
    next
      case (Some s)
      with v Value consider "c = CHR ''a''" | "c = CHR ''p''" | "c = CHR ''f''" by auto
      then show ?thesis
      proof cases
        case 1
        from Cons.IH [OF rest, of "st\<lparr>m_allocator := s\<rparr>"] 1 Some Value show ?thesis
          by auto
      next
        case 2
        from Cons.IH [OF rest, of "st\<lparr>m_LIBPROCESS_PORT := Some s\<rparr>"] 2 Some Value show ?thesis
          by auto
      next
        case 3
        from Cons.IH [OF rest, of "st\<lparr>m_isFT := True, m_zkserver := s\<rparr>"] 3 Some Value
        show ?thesis
          by auto
      qed
    qed
  qed
qed

lemma f_args_append: "f_args (vs @ ws) = f_args vs @ f_args ws"
  by (induction vs rule: f_args.induct) simp_all

lemma f_args_q: "f_args (replicate k (Value (CHR ''q'') None)) = []"
  by (induction k) simp_all

lemma f_args_item: "f_args (item_values i) = fault_tolerant_args i"
proof (cases i)
  case (Long n eq v)
  then show ?thesis by (cases n) simp_all
next
  case (Short k opt)
  show ?thesis
  proof (cases opt)
    case None
    with Short show ?thesis by (simp add: f_args_q)
  next
    case (Some t)
    obtain n joined v where "t = (n, joined, v)" by (cases t)
    with Some Short show ?thesis by (cases n) (simp_all add: f_args_append f_args_q)
  qed
qed simp_all

lemma f_args_items:
  "f_args (concat (map item_values items)) = concat (map fault_tolerant_args items)"
  by (induction items) (simp_all add: f_args_append f_args_item)

lemma q_item: "Value (CHR ''q'') None \<in> set (item_values i) \<longleftrightarrow> is_quiet i"
proof (cases i)
  case (Long n eq v)
  then show ?thesis by simp
next
  case (Short k opt)
  show ?thesis
  proof (cases opt)
    case None
    with Short show ?thesis by auto
  next
    case (Some t)
    obtain n joined v where "t = (n, joined, v)" by (cases t)
    with Some Short show ?thesis by auto
  qed
qed simp_all

lemma q_items:
  "Value (CHR ''q'') None \<in> set (concat (map item_values items)) \<longleftrightarrow> list_ex is_quiet items"
  by (induction items) (simp_all add: q_item)

lemma render_item_not_help:
  "wf_item i \<Longrightarrow> render_item i \<noteq> [] \<and> hd (render_item i) \<noteq> ''--help''"
proof (cases i)
  case (Long n eq v)
  then show ?thesis by (cases n; cases eq) simp_all
next
  case (Short k opt)
  show ?thesis
  proof (cases opt)
    case None
    with Short show ?thesis by (cases k) simp_all
  next
    case (Some t)
    obtain n joined v where "t = (n, joined, v)" by (cases t)
    with Some Short show ?thesis by (cases k; cases n; cases joined) simp_all
  qed
next
  case (Operand s)
  then show "wf_item i \<Longrightarrow> ?thesis" by auto
qed simp_all

lemma command_line_not_help:
  assumes "list_all wf_item items"
  shows "command_line items operands \<noteq> [''--help'']"
proof (cases items)
  case Nil
  then show ?thesis by (cases operands) (simp_all add: command_line_def)
next
  case (Cons i rest)
  with assms have "wf_item i" by simp
  from render_item_not_help [OF this] obtain w ws where r: "render_item i = w # ws"
    and w: "w \<noteq> ''--help''"
    by (cases "render_item i") auto
  from Cons r w show ?thesis by (simp add: command_line_def)
qed

lemma main_on_command_line:
  assumes "list_all wf_item items"
  shows "\<exists>r. main bd bu argv0 (command_line items operands) t = Inr r \<and>
           (master_isFT r \<longleftrightarrow> concat (map fault_tolerant_args items) \<noteq> []) \<and>
           master_zkserver r =
             (if concat (map fault_tolerant_args items) = [] then []
              else last (concat (map fault_tolerant_args items))) \<and>
           (stderr_info r \<longleftrightarrow> \<not> list_ex is_quiet items) \<and>
           returned r = (if t then Some 0 else None)"
proof -
  let ?init = "\<lparr>m_isFT = False, m_zkserver = [], m_quiet = False,
                 m_allocator = ''simple'', m_LIBPROCESS_PORT = None\<rparr>"
  let ?vs = "concat (map item_values items)"
  from options_loop_good [OF items_values_good, of ?init items]
  obtain st where st: "options_loop ?init ?vs = Inr st \<and>
     (m_isFT st \<longleftrightarrow> m_isFT ?init \<or> f_args ?vs \<noteq> []) \<and>
     m_zkserver st = (if f_args ?vs = [] then m_zkserver ?init else last (f_args ?vs)) \<and>
     (m_quiet st \<longleftrightarrow> m_quiet ?init \<or> Value (CHR ''q'') None \<in> set ?vs)"
    by (rule exE)
  from st have loop: "options_loop ?init ?vs = Inr st"
    by (rule conjunct1)
  from st have ft: "m_isFT st \<longleftrightarrow> f_args ?vs \<noteq> []"
    and zk: "m_zkserver st = (if f_args ?vs = [] then [] else last (f_args ?vs))"
    and q: "m_quiet st \<longleftrightarrow> Value (CHR ''q'') None \<in> set ?vs"
    by simp_all
  have nohelp: "\<not> (length (argv0 # command_line items operands) = 2 \<and>
                   ''--help'' = (argv0 # command_line items operands) ! 1)"
  proof
    assume h: "length (argv0 # command_line items operands) = 2 \<and>
               ''--help'' = (argv0 # command_line items operands) ! 1"
    then obtain w where "command_line items operands = [w]"
      by (cases "command_line items operands") auto
    with h have "command_line items operands = [''--help'']" by simp
    with command_line_not_help [OF assms] show False by simp
  qed
  from nohelp loop ft zk q show ?thesis
    unfolding main_def getopt_long_command_line [OF assms] f_args_items q_items
    by simp
qed

lemma options_loop_passes:
  "options_loop st vs = Inr st' \<Longrightarrow> list_all passes vs"
proof (induction vs arbitrary: st)
  case Nil
  then show ?case by simp
next
  case (Cons v vs)
  show ?case
  proof (cases v)
    case (Out_of_table i)
    with Cons.prems show ?thesis by simp
  next
    case (Value c a)
    with Cons.prems have "passes v \<and> (\<exists>st1. options_loop st1 vs = Inr st')"
      by (cases a) (auto split: if_splits)
    with Cons.IH show ?thesis by auto
  qed
qed

lemma short_spec_cases:
  "short_spec ''a:p:f:q'' c =
     (if c = CHR ''a'' \<or> c = CHR ''p'' \<or> c = CHR ''f'' then Some required_argument
      else if c = CHR ''q'' then Some no_argument else None)"
  by auto

lemma letter_cases:
  "c = CHR ''a'' \<or> c = CHR ''p'' \<or> c = CHR ''f'' \<Longrightarrow> \<exists>n. c = short_char n"
proof (elim disjE)
  show "c = CHR ''a'' \<Longrightarrow> ?thesis" by (rule exI [of _ Allocator]) simp
  show "c = CHR ''p'' \<Longrightarrow> ?thesis" by (rule exI [of _ Port]) simp
  show "c = CHR ''f'' \<Longrightarrow> ?thesis" by (rule exI [of _ Fault_tolerant]) simp
qed

lemma cluster_shape_q:
  "cluster_shape cs rest used k \<Longrightarrow> cluster_shape (CHR ''q'' # cs) rest used (Suc k)"
  unfolding cluster_shape_def by (elim disjE exE conjE) auto

lemma short_cluster_inv:
  assumes "list_all passes (fst (short_cluster ''a:p:f:q'' cs rest))"
  shows "\<exists>k. cluster_shape cs rest (snd (short_cluster ''a:p:f:q'' cs rest)) k"
  using assms
proof (induction cs)
  case Nil
  have "cluster_shape [] rest (snd (short_cluster ''a:p:f:q'' [] rest)) 0"
    by (simp add: cluster_shape_def)
  then show ?case by (rule exI)
next
  case (Cons c cs)
  consider (letter) "c = CHR ''a'' \<or> c = CHR ''p'' \<or> c = CHR ''f''"
    | (q) "c = CHR ''q''"
    | (other) "c \<noteq> CHR ''a''" "c \<noteq> CHR ''p''" "c \<noteq> CHR ''f''" "c \<noteq> CHR ''q''"
    by blast
  then show ?case
  proof cases
    case letter
    then obtain n where n: "c = short_char n" using letter_cases by blast
    from letter have spec: "short_spec ''a:p:f:q'' c = Some required_argument"
      by (simp only: short_spec_cases if_True)
    show ?thesis
    proof (cases "cs = []")
      case False
      with spec have used: "snd (short_cluster ''a:p:f:q'' (c # cs) rest) = False"
        by (simp del: short_spec.simps)
      from False n have "\<exists>n v. v \<noteq> [] \<and> c # cs = replicate 0 (CHR ''q'') @ short_char n # v"
        by auto
      then have shape: "cluster_shape (c # cs) rest False 0"
        unfolding cluster_shape_def by simp
      have "cluster_shape (c # cs) rest (snd (short_cluster ''a:p:f:q'' (c # cs) rest)) 0"
        unfolding used by (rule shape)
      then show ?thesis by (rule exI)
    next
      case True
      show ?thesis
      proof (cases rest)
        case Nil
        with True spec Cons.prems show ?thesis by (simp del: short_spec.simps)
      next
        case (Cons a rest')
        with True spec have used: "snd (short_cluster ''a:p:f:q'' (c # cs) rest) = True"
          by (simp del: short_spec.simps)
        from True n Cons have "\<exists>n a rest'. c # cs = replicate 0 (CHR ''q'') @ [short_char n] \<and>
            rest = a # rest'"
          by auto
        then have shape: "cluster_shape (c # cs) rest True 0"
          unfolding cluster_shape_def by simp
        have "cluster_shape (c # cs) rest (snd (short_cluster ''a:p:f:q'' (c # cs) rest)) 0"
          unfolding used by (rule shape)
        then show ?thesis by (rule exI)
      qed
    qed
  next
    case q
    then have spec: "short_spec ''a:p:f:q'' c = Some no_argument"
      by (simp only: short_spec_cases) simp
    with Cons.prems have "list_all passes (fst (short_cluster ''a:p:f:q'' cs rest))"
      by (simp del: short_spec.simps)
    from Cons.IH [OF this] obtain k
      where k: "cluster_shape cs rest (snd (short_cluster ''a:p:f:q'' cs rest)) k"
      by (rule exE)
    from spec have snd_eq: "snd (short_cluster ''a:p:f:q'' (c # cs) rest)
        = snd (short_cluster ''a:p:f:q'' cs rest)"
      by (simp del: short_spec.simps)
    have "cluster_shape (CHR ''q'' # cs) rest (snd (short_cluster ''a:p:f:q'' cs rest)) (Suc k)"
      by (rule cluster_shape_q [OF k])
    with q snd_eq
    have "cluster_shape (c # cs) rest (snd (short_cluster ''a:p:f:q'' (c # cs) rest)) (Suc k)"
      by (simp del: short_cluster.simps)
    then show ?thesis by (rule exI)
  next
    case other
    then have "short_spec ''a:p:f:q'' c = None"
      by (simp only: short_spec_cases) simp
    with Cons.prems show ?thesis by (simp del: short_spec.simps)
  qed
qed

lemma long_lookup_options:
  "long_lookup options 0 nm =
     (if nm = ''allocator'' then Found 0
      else if nm = ''port'' then Found 1
      else if nm = ''fault-tolerant'' then Found 2
      else if nm = ''quiet'' then Found 3
      else Out_of_bounds 4)"
  by (auto simp add: options_def)

lemma body_without_eq:
  "CHR ''='' \<notin> set body \<Longrightarrow> takeWhile (\<lambda>c. c \<noteq> CHR ''='') body = body"
  by (auto simp add: takeWhile_eq_all_conv)

lemma body_with_eq:
  assumes "CHR ''='' \<in> set body"
  shows "body = takeWhile (\<lambda>c. c \<noteq> CHR ''='') body @
           CHR ''='' # drop 1 (dropWhile (\<lambda>c. c \<noteq> CHR ''='') body)"
proof -
  from assms have "dropWhile (\<lambda>c. c \<noteq> CHR ''='') body \<noteq> []"
    by (simp add: dropWhile_eq_Nil_conv)
  then obtain y ys where d: "dropWhile (\<lambda>c. c \<noteq> CHR ''='') body = y # ys"
    by (cases "dropWhile (\<lambda>c. c \<noteq> CHR ''='') body") auto
  from hd_dropWhile [of "\<lambda>c. c \<noteq> CHR ''=''" body] d have "y = CHR ''=''"
    by simp
  with d have "dropWhile (\<lambda>c. c \<noteq> CHR ''='') body =
      CHR ''='' # drop 1 (dropWhile (\<lambda>c. c \<noteq> CHR ''='') body)"
    by simp
  with takeWhile_dropWhile_id [of "\<lambda>c. c \<noteq> CHR ''=''" body] show ?thesis
    by metis
qed

lemma long_found_required:
  assumes e: "o_has_arg e = required_argument" "o_flag e = None" "o_val e = short_char n"
      "o_name e = Some (long_name n)"
    and nm: "takeWhile (\<lambda>c. c \<noteq> CHR ''='') body = long_name n"
    and p: "passes (fst (long_found e body rest))"
  shows "\<exists>i. wf_item i \<and>
           (''--'' @ body) # rest =
             render_item i @ (if snd (long_found e body rest) then tl rest else rest)"
proof (cases "CHR ''='' \<in> set body")
  case True
  from body_with_eq [OF True] nm
  have body: "body = long_name n @ CHR ''='' # drop 1 (dropWhile (\<lambda>c. c \<noteq> CHR ''='') body)"
    by simp
  from True e have used: "snd (long_found e body rest) = False"
    by (simp add: long_found_def)
  let ?i = "Long n True (drop 1 (dropWhile (\<lambda>c. c \<noteq> CHR ''='') body))"
  from body have "(''--'' @ body) # rest = render_item ?i @ rest"
    by simp
  then have "wf_item ?i \<and> (''--'' @ body) # rest =
      render_item ?i @ (if snd (long_found e body rest) then tl rest else rest)"
    unfolding used by simp
  then show ?thesis by (rule exI)
next
  case False
  with nm have body: "body = long_name n"
    by (simp add: body_without_eq)
  show ?thesis
  proof (cases rest)
    case Nil
    with False e p show ?thesis by (simp add: long_found_def)
  next
    case (Cons a rest')
    with False e have used: "snd (long_found e body rest) = True"
      by (simp add: long_found_def)
    let ?i = "Long n False a"
    from body Cons have "wf_item ?i \<and> (''--'' @ body) # rest =
        render_item ?i @ (if snd (long_found e body rest) then tl rest else rest)"
      unfolding used by simp
    then show ?thesis by (rule exI)
  qed
qed

lemma long_found_quiet:
  assumes e: "o_has_arg e = no_argument" "o_flag e = None"
    and nm: "takeWhile (\<lambda>c. c \<noteq> CHR ''='') body = ''quiet''"
    and p: "passes (fst (long_found e body rest))"
  shows "\<exists>i. wf_item i \<and>
           (''--'' @ body) # rest =
             render_item i @ (if snd (long_found e body rest) then tl rest else rest)"
proof (cases "CHR ''='' \<in> set body")
  case True
  with e p show ?thesis by (simp add: long_found_def)
next
  case False
  with nm have body: "body = ''quiet''"
    by (simp add: body_without_eq)
  from False e have used: "snd (long_found e body rest) = False"
    by (simp add: long_found_def)
  from body have "wf_item Quiet_long \<and> (''--'' @ body) # rest =
      render_item Quiet_long @ (if snd (long_found e body rest) then tl rest else rest)"
    unfolding used by simp
  then show ?thesis by (rule exI)
qed

lemma long_option_inv:
  assumes p: "passes (fst (long_option options body rest))"
  shows "\<exists>i. wf_item i \<and>
           (''--'' @ body) # rest =
             render_item i @ (if snd (long_option options body rest) then tl rest else rest)"
proof -
  let ?nm = "takeWhile (\<lambda>c. c \<noteq> CHR ''='') body"
  consider (a) "?nm = ''allocator''" | (p) "?nm = ''port''" | (f) "?nm = ''fault-tolerant''"
    | (q) "?nm = ''quiet''"
    | (none) "?nm \<noteq> ''allocator''" "?nm \<noteq> ''port''" "?nm \<noteq> ''fault-tolerant''" "?nm \<noteq> ''quiet''"
    by blast
  then show ?thesis
  proof cases
    case a
    then have lo: "long_option options body rest = long_found (options ! 0) body rest"
      by (simp add: long_option_def long_lookup_options)
    have "\<exists>i. wf_item i \<and> (''--'' @ body) # rest =
             render_item i @ (if snd (long_found (options ! 0) body rest) then tl rest else rest)"
      by (rule long_found_required [of _ Allocator])
        (use a p lo in \<open>simp_all add: options_def\<close>)
    with lo show ?thesis by simp
  next
    case p
    then have lo: "long_option options body rest = long_found (options ! 1) body rest"
      by (simp add: long_option_def long_lookup_options)
    have "\<exists>i. wf_item i \<and> (''--'' @ body) # rest =
             render_item i @ (if snd (long_found (options ! 1) body rest) then tl rest else rest)"
      by (rule long_found_required [of _ Port])
        (use p assms lo in \<open>simp_all add: options_def\<close>)
    with lo show ?thesis by simp
  next
    case f
    then have lo: "long_option options body rest = long_found (options ! 2) body rest"
      by (simp add: long_option_def long_lookup_options)
    have "\<exists>i. wf_item i \<and> (''--'' @ body) # rest =
             render_item i @ (if snd (long_found (options ! 2) body rest) then tl rest else rest)"
      by (rule long_found_required [of _ Fault_tolerant])
        (use f assms lo in \<open>simp_all add: options_def\<close>)
    with lo show ?thesis by simp
  next
    case q
    then have lo: "long_option options body rest = long_found (options ! 3) body rest"
      by (simp add: long_option_def long_lookup_options)
    have "\<exists>i. wf_item i \<and> (''--'' @ body) # rest =
             render_item i @ (if snd (long_found (options ! 3) body rest) then tl rest else rest)"
      by (rule long_found_quiet)
        (use q assms lo in \<open>simp_all add: options_def\<close>)
    with lo show ?thesis by simp
  next
    case none
    then have "fst (long_option options body rest) = Out_of_table 4"
      by (simp add: long_option_def long_lookup_options)
    with assms show ?thesis by simp
  qed
qed

lemma command_line_Cons:
  "command_line (i # items) operands = render_item i @ command_line items operands"
  by (simp add: command_line_def)

lemma cluster_shape_item:
  assumes "cluster_shape cs rest used k"
  shows "\<exists>i. wf_item i \<and>
           (CHR ''-'' # cs) # rest = render_item i @ (if used then tl rest else rest)"
proof -
  from assms consider
      (none) "cs = replicate k (CHR ''q'')" "\<not> used"
    | (joined) n v where "v \<noteq> []" "cs = replicate k (CHR ''q'') @ short_char n # v" "\<not> used"
    | (separate) n a rest' where "cs = replicate k (CHR ''q'') @ [short_char n]"
        "rest = a # rest'" "used"
    unfolding cluster_shape_def by blast
  then show ?thesis
  proof cases
    case none
    then have "wf_item (Short k None) \<and> (CHR ''-'' # cs) # rest =
        render_item (Short k None) @ (if used then tl rest else rest)"
      by simp
    then show ?thesis by (rule exI)
  next
    case joined
    then have "wf_item (Short k (Some (n, True, v))) \<and> (CHR ''-'' # cs) # rest =
        render_item (Short k (Some (n, True, v))) @ (if used then tl rest else rest)"
      by simp
    then show ?thesis by (rule exI)
  next
    case separate
    then have "wf_item (Short k (Some (n, False, a))) \<and> (CHR ''-'' # cs) # rest =
        render_item (Short k (Some (n, False, a))) @ (if used then tl rest else rest)"
      by simp
    then show ?thesis by (rule exI)
  qed
qed

lemma short_element_inv:
  assumes x: "take 1 x = ''-''"
    and p: "list_all passes (fst (short_cluster ''a:p:f:q'' (tl x) rest))"
  shows "\<exists>i. wf_item i \<and>
           x # rest =
             render_item i @ (if snd (short_cluster ''a:p:f:q'' (tl x) rest) then tl rest else rest)"
proof -
  from x have xcs: "x = CHR ''-'' # tl x"
    by (cases x) simp_all
  from short_cluster_inv [OF p] obtain k
    where "cluster_shape (tl x) rest (snd (short_cluster ''a:p:f:q'' (tl x) rest)) k"
    by (rule exE)
  from cluster_shape_item [OF this] show ?thesis
    by (subst xcs)
qed

lemma getopt_scan_long:
  assumes "x \<noteq> ''--''" and "take 2 x = ''--''"
  shows "getopt_scan os tbl (x # xs) =
           (case fst (long_option tbl (drop 2 x) xs) of
              Out_of_table i \<Rightarrow> [Out_of_table i]
            | Value c a \<Rightarrow>
                Value c a #
                  getopt_scan os tbl (if snd (long_option tbl (drop 2 x) xs) then tl xs else xs))"
  using assms by simp

lemma getopt_scan_inv:
  "list_all passes (getopt_scan ''a:p:f:q'' options xs) \<Longrightarrow>
   \<exists>items operands. list_all wf_item items \<and> xs = command_line items operands"
proof (induction xs rule: length_induct)
  case (1 xs)
  note IH = "1.IH" and p = "1.prems"
  show ?case
  proof (cases xs)
    case Nil
    then have "list_all wf_item [] \<and> xs = command_line [] None"
      by (simp add: command_line_def)
    then show ?thesis by (intro exI)
  next
    case (Cons x rest)
    have step: "\<exists>items operands. list_all wf_item items \<and> xs = command_line items operands"
      if i: "wf_item i \<and> x # rest = render_item i @ rest'"
        and len: "length rest' < length xs"
        and p': "list_all passes (getopt_scan ''a:p:f:q'' options rest')" for i rest'
    proof -
      from IH len p' have "\<exists>items operands. list_all wf_item items \<and>
          rest' = command_line items operands"
        by simp
      then obtain items operands
        where its: "list_all wf_item items \<and> rest' = command_line items operands"
        by (elim exE)
      with i Cons have "list_all wf_item (i # items) \<and>
          xs = command_line (i # items) operands"
        by (simp add: command_line_Cons)
      then show ?thesis by (intro exI)
    qed
    show ?thesis
    proof (cases "x = ''--''")
      case True
      with Cons have "list_all wf_item [] \<and> xs = command_line [] (Some rest)"
        by (simp add: command_line_def)
      then show ?thesis by (intro exI)
    next
      case notdd: False
      show ?thesis
      proof (cases "take 2 x = ''--''")
        case True
        define used where "used = snd (long_option options (drop 2 x) rest)"
        define v where "v = fst (long_option options (drop 2 x) rest)"
        define rest' where "rest' = (if used then tl rest else rest)"
        have "take 2 x @ drop 2 x = x" by (rule append_take_drop_id)
        with True have xeq: "''--'' @ drop 2 x = x" by simp
        from p Cons have "list_all passes
            (case v of Out_of_table i \<Rightarrow> [Out_of_table i]
             | Value c a \<Rightarrow> Value c a # getopt_scan ''a:p:f:q'' options rest')"
          unfolding v_def rest'_def used_def
          by (simp add: getopt_scan_long [OF notdd True] del: getopt_scan.simps)
        then have pv: "passes v" and pr: "list_all passes (getopt_scan ''a:p:f:q'' options rest')"
          by (cases v; simp)+
        from long_option_inv [of "drop 2 x" rest] pv
        have "\<exists>i. wf_item i \<and> x # rest = render_item i @ rest'"
          unfolding v_def rest'_def used_def xeq by simp
        then obtain i where i: "wf_item i \<and> x # rest = render_item i @ rest'"
          by (elim exE)
        have len: "length rest' < length xs"
          using Cons by (simp add: rest'_def less_Suc_eq_le)
        from step [OF i len pr] show ?thesis .
      next
        case notlong: False
        show ?thesis
        proof (cases "take 1 x = ''-'' \<and> x \<noteq> ''-''")
          case True
          then have dash: "take 1 x = ''-''" and notdash: "x \<noteq> ''-''" by simp_all
          define used where "used = snd (short_cluster ''a:p:f:q'' (tl x) rest)"
          define vs where "vs = fst (short_cluster ''a:p:f:q'' (tl x) rest)"
          define rest' where "rest' = (if used then tl rest else rest)"
          from p Cons have "list_all passes (vs @ getopt_scan ''a:p:f:q'' options rest')"
            unfolding vs_def rest'_def used_def
            by (simp add: getopt_scan_short [OF notdd notlong dash notdash]
                del: getopt_scan.simps)
          then have pv: "list_all passes vs"
            and pr: "list_all passes (getopt_scan ''a:p:f:q'' options rest')"
            by simp_all
          from short_element_inv [OF dash, of rest] pv
          have "\<exists>i. wf_item i \<and> x # rest = render_item i @ rest'"
            unfolding vs_def rest'_def used_def by simp
          then obtain i where i: "wf_item i \<and> x # rest = render_item i @ rest'"
            by (elim exE)
          have len: "length rest' < length xs"
            using Cons by (simp add: rest'_def less_Suc_eq_le)
          from step [OF i len pr] show ?thesis .
        next
          case False
          then have wf: "x = ''-'' \<or> take 1 x \<noteq> ''-''" by blast
          with p Cons have pr: "list_all passes (getopt_scan ''a:p:f:q'' options rest)"
            by (simp add: getopt_scan_operand del: getopt_scan.simps)
          from wf have i: "wf_item (Operand x) \<and> x # rest = render_item (Operand x) @ rest"
            by simp
          have len: "length rest < length xs" using Cons by simp
          from step [OF i len pr] show ?thesis .
        qed
      qed
    qed
  qed
qed

lemma main_Inr_command_line:
  assumes "main bd bu argv0 args t = Inr r"
  shows "\<exists>items operands. list_all wf_item items \<and> args = command_line items operands"
proof -
  from assms obtain st where
    "options_loop \<lparr>m_isFT = False, m_zkserver = [], m_quiet = False,
                 m_allocator = ''simple'', m_LIBPROCESS_PORT = None\<rparr>
       (getopt_long (argv0 # args) ''a:p:f:q'' options) = Inr st"
    by (auto simp add: main_def split: if_splits sum.splits)
  from options_loop_passes [OF this]
  have "list_all passes (getopt_scan ''a:p:f:q'' options args)"
    by (simp add: getopt_long_def)
  then show ?thesis by (rule getopt_scan_inv)
qed

section \<open>The options of the master binary\<close>

text \<open>
  C6. Every command line on which \<^verbatim>\<open>main\<close> gets to construct the master is a sequence
  of the program's options and of operands; on every such command line the master is
  constructed, and it is constructed in fault-tolerant mode if and only if the option
  \<^verbatim>\<open>fault-tolerant\<close> is among them, in any of its spellings. Then the locator given to
  the master is the argument of that option, unchanged (of its last occurrence when it
  is given more than once); without the option the master gets \<^verbatim>\<open>isFT = false\<close> and the
  empty locator.
\<close>

theorem master_fault_tolerant_option:
  "(list_all wf_item items \<longrightarrow>
      (\<exists>r. main bd bu argv0 (command_line items operands) t = Inr r \<and>
         (master_isFT r \<longleftrightarrow> concat (map fault_tolerant_args items) \<noteq> []) \<and>
         master_zkserver r =
           (if concat (map fault_tolerant_args items) = [] then []
            else last (concat (map fault_tolerant_args items))))) \<and>
   (main bd bu argv0 args t = Inr r0 \<longrightarrow>
      (\<exists>items0 operands0. list_all wf_item items0 \<and> args = command_line items0 operands0))"
proof (intro conjI impI)
  assume "list_all wf_item items"
  from main_on_command_line [OF this, of bd bu argv0 operands t]
  show "\<exists>r. main bd bu argv0 (command_line items operands) t = Inr r \<and>
         (master_isFT r \<longleftrightarrow> concat (map fault_tolerant_args items) \<noteq> []) \<and>
         master_zkserver r =
           (if concat (map fault_tolerant_args items) = [] then []
            else last (concat (map fault_tolerant_args items)))"
    by (elim exE conjE) (intro exI conjI)
next
  assume "main bd bu argv0 args t = Inr r0"
  then show "\<exists>items0 operands0. list_all wf_item items0 \<and> args = command_line items0 operands0"
    by (rule main_Inr_command_line)
qed

text \<open>
  The command line \<^verbatim>\<open>-q --fault-tolerant zoo:2181 x --port=80 -- -y\<close> starts a
  fault-tolerant master with the locator \<open>zoo:2181\<close>; the empty command line starts a
  master that is not fault-tolerant.
\<close>

theorem master_fault_tolerant_option_witness:
  "list_all wf_item items_example \<and>
   (\<exists>r. main ''today'' ''builder'' ''master''
           [''-q'', ''--fault-tolerant'', ''zoo:2181'', ''x'', ''--port=80'', ''--'', ''-y''] True
           = Inr r \<and>
        master_isFT r \<and> master_zkserver r = ''zoo:2181'') \<and>
   (\<exists>items0 operands0. list_all wf_item items0 \<and>
        [''-q'', ''--fault-tolerant'', ''zoo:2181'', ''x'', ''--port=80'', ''--'', ''-y'']
          = command_line items0 operands0) \<and>
   (\<exists>r. main ''today'' ''builder'' ''master'' [] True = Inr r \<and>
        \<not> master_isFT r \<and> master_zkserver r = [])"
proof -
  let ?args = "[''-q'', ''--fault-tolerant'', ''zoo:2181'', ''x'', ''--port=80'', ''--'', ''-y'']"
  have wf: "list_all wf_item items_example"
    by (simp add: items_example_def)
  have cl: "command_line items_example (Some [''-y'']) = ?args"
    by (simp add: items_example_def command_line_def)
  have ft: "concat (map fault_tolerant_args items_example) = [''zoo:2181'']"
    by (simp add: items_example_def)
  note thm1 = master_fault_tolerant_option
    [of items_example "''today''" "''builder''" "''master''" "Some [''-y'']" True]
  from thm1 [THEN conjunct1, THEN mp, OF wf]
  have run1: "\<exists>r. main ''today'' ''builder'' ''master'' ?args True = Inr r \<and>
        master_isFT r \<and> master_zkserver r = ''zoo:2181''"
    unfolding cl ft by simp
  then obtain r1 where r1: "main ''today'' ''builder'' ''master'' ?args True = Inr r1"
    by (elim exE conjE)
  from master_fault_tolerant_option
    [of _ "''today''" "''builder''" "''master''" _ True ?args r1, THEN conjunct2, THEN mp, OF r1]
  have shape: "\<exists>items0 operands0. list_all wf_item items0 \<and> ?args = command_line items0 operands0" .
  have wf0: "list_all wf_item []" by simp
  from master_fault_tolerant_option
    [of "[]" "''today''" "''builder''" "''master''" None True, THEN conjunct1, THEN mp, OF wf0]
  have run2: "\<exists>r. main ''today'' ''builder'' ''master'' [] True = Inr r \<and>
        \<not> master_isFT r \<and> master_zkserver r = []"
    by (simp add: command_line_def)
  show ?thesis
    by (intro conjI; fact)
qed

text \<open>
  C7. Every command line on which \<^verbatim>\<open>main\<close> gets past the options is a sequence of the
  program's options and of operands; on every such command line logging of level INFO
  to stderr is switched on if and only if the option \<^verbatim>\<open>quiet\<close> is not among them, in
  either of its spellings.
\<close>

theorem master_quiet_option:
  "(list_all wf_item items \<longrightarrow>
      (\<exists>r. main bd bu argv0 (command_line items operands) t = Inr r \<and>
         (stderr_info r \<longleftrightarrow> \<not> list_ex is_quiet items))) \<and>
   (main bd bu argv0 args t = Inr r0 \<longrightarrow>
      (\<exists>items0 operands0. list_all wf_item items0 \<and> args = command_line items0 operands0))"
proof (intro conjI impI)
  assume "list_all wf_item items"
  from main_on_command_line [OF this, of bd bu argv0 operands t]
  show "\<exists>r. main bd bu argv0 (command_line items operands) t = Inr r \<and>
         (stderr_info r \<longleftrightarrow> \<not> list_ex is_quiet items)"
    by (elim exE conjE) (intro exI conjI)
next
  assume "main bd bu argv0 args t = Inr r0"
  then show "\<exists>items0 operands0. list_all wf_item items0 \<and> args = command_line items0 operands0"
    by (rule main_Inr_command_line)
qed

text \<open>
  The command line with \<^verbatim>\<open>-q\<close> leaves informational logging off; the command line
  \<^verbatim>\<open>--allocator simple\<close> switches it on.
\<close>

theorem master_quiet_option_witness:
  "list_all wf_item items_example \<and>
   (\<exists>r. main ''today'' ''builder'' ''master''
           [''-q'', ''--fault-tolerant'', ''zoo:2181'', ''x'', ''--port=80'', ''--'', ''-y''] True
           = Inr r \<and> \<not> stderr_info r) \<and>
   (\<exists>items0 operands0. list_all wf_item items0 \<and>
        [''-q'', ''--fault-tolerant'', ''zoo:2181'', ''x'', ''--port=80'', ''--'', ''-y'']
          = command_line items0 operands0) \<and>
   (\<exists>r. main ''today'' ''builder'' ''master'' [''--allocator'', ''simple''] True = Inr r \<and>
        stderr_info r)"
proof -
  let ?args = "[''-q'', ''--fault-tolerant'', ''zoo:2181'', ''x'', ''--port=80'', ''--'', ''-y'']"
  have wf: "list_all wf_item items_example"
    by (simp add: items_example_def)
  have cl: "command_line items_example (Some [''-y'']) = ?args"
    by (simp add: items_example_def command_line_def)
  have q: "list_ex is_quiet items_example"
    by (simp add: items_example_def)
  from master_quiet_option
    [of items_example "''today''" "''builder''" "''master''" "Some [''-y'']" True,
      THEN conjunct1, THEN mp, OF wf]
  have run1: "\<exists>r. main ''today'' ''builder'' ''master'' ?args True = Inr r \<and> \<not> stderr_info r"
    unfolding cl using q by simp
  then obtain r1 where r1: "main ''today'' ''builder'' ''master'' ?args True = Inr r1"
    by (elim exE conjE)
  from master_quiet_option
    [of _ "''today''" "''builder''" "''master''" _ True ?args r1, THEN conjunct2, THEN mp, OF r1]
  have shape: "\<exists>items0 operands0. list_all wf_item items0 \<and> ?args = command_line items0 operands0" .
  have wf2: "list_all wf_item [Long Allocator False ''simple'']" by simp
  from master_quiet_option
    [of "[Long Allocator False ''simple'']" "''today''" "''builder''" "''master''" None True,
      THEN conjunct1, THEN mp, OF wf2]
  have run2: "\<exists>r. main ''today'' ''builder'' ''master'' [''--allocator'', ''simple''] True = Inr r \<and>
        stderr_info r"
    by (simp add: command_line_def)
  show ?thesis
    by (intro conjI; fact)
qed

section \<open>The exit code of the master binary\<close>

text \<open>
  When the master is constructed and terminates, \<^verbatim>\<open>main\<close> returns 0; an unknown option
  letter and a missing argument end in \<^verbatim>\<open>exit(1)\<close>; an unknown long option ends in a
  read outside the table.
\<close>

lemma main_returns_zero:
  assumes "main bd bu argv0 args True = Inr r"
  shows "exit_code (main bd bu argv0 args True) = Some 0"
  using assms by (auto simp add: main_def split: if_splits sum.splits)

lemma main_question_exit:
  "exit_code (main bd bu argv0 [''-x''] t) = Some 1 \<and>
   exit_code (main bd bu argv0 [''--port''] t) = Some 1 \<and>
   exit_code (main bd bu argv0 [''--help''] t) = Some 1 \<and>
   main bd bu argv0 [''--bogus''] t = Inl (Table_overrun 4)"
  by (simp add: main_def getopt_long_def long_option_def long_found_def options_def)

lemma unrecognized_long_option:
  "Some nm \<notin> o_name ` set options \<Longrightarrow> long_lookup options 0 nm = Out_of_bounds (length options)"
  by (auto simp add: options_def)

text \<open>
  C4. The exit code of the master binary is 0 on a clean shutdown and 1 on an
  unrecognized or malformed option. For an unrecognized long option the code does not
  get there in a defined way: the table \<^verbatim>\<open>options\<close> has no element with a null name, so
  the look-up of a name that is not in the table (\<^verbatim>\<open>--bogus\<close>) reads the element after
  the last one, outside the array, while a name of the table is found before the end.
  With the terminating element the same look-up ends inside the table.
\<close>

theorem options_table_has_no_terminator:
  "None \<notin> o_name ` set options \<and>
   long_lookup options 0 ''bogus'' = Out_of_bounds 4 \<and>
   long_lookup options 0 ''quiet'' = Found 3 \<and>
   long_lookup (options @ [zero_entry]) 0 ''bogus'' = Not_found"
  by (simp add: options_def zero_entry_def)

end
